theory Spec2Isabelle
  imports
    Main
    "HOL-Library.Char_ord"
    "HOL-Library.Product_Lexorder"
    "HOL-Library.Multiset"
begin

section \<open>Rules engine (rules/rules.py)\<close>

text \<open>
  A tile is the two-character code of the source, \<^verbatim>\<open>'M1'\<close> .. \<^verbatim>\<open>'X7'\<close>: the suit
  character \<^verbatim>\<open>tile[0]\<close> and the rank digit \<^verbatim>\<open>tile[1]\<close>, kept here as its number
  (\<^verbatim>\<open>int(tile[1])\<close> is the second component, \<^verbatim>\<open>suit+str(n)\<close> is the pair \<open>(suit, n)\<close>).
  Python compares the codes lexicographically, which on these codes is the lexicographic
  order of the pairs.
\<close>

type_synonym tile = "char \<times> nat"

text \<open>A group is the tuple \<^verbatim>\<open>('pon', tile)\<close>, \<^verbatim>\<open>('chi', tile)\<close> or \<^verbatim>\<open>('pair', tile)\<close>.\<close>

type_synonym group = "string \<times> tile"

datatype py_error = IndexError | TypeError | AssertionError | AttributeError

text \<open>
  \<^verbatim>\<open>find_pair\<close> is a generator over the positions \<open>i = 0 .. len(tiles) - 2\<close>;
  \<open>find_pair_at tiles i\<close> is what the loop body yields at position \<open>i\<close>
  (nothing on \<^verbatim>\<open>continue\<close>).
\<close>

definition find_pair_at :: "tile list \<Rightarrow> nat \<Rightarrow> (group \<times> tile list) list" where
  "find_pair_at tiles i =
     (if tiles ! i = tiles ! (i + 1) then
        (if i + 2 < length tiles \<and> tiles ! (i + 1) = tiles ! (i + 2) then []
         else [((''pair'', tiles ! i), take i tiles @ drop (i + 2) tiles)])
      else [])"

definition find_pair :: "tile list \<Rightarrow> (group \<times> tile list) list" where
  "find_pair tiles = concat (map (find_pair_at tiles) [0 ..< length tiles - 1])"

definition begin_pon :: "tile list \<Rightarrow> (group \<times> tile list) list" where
  "begin_pon tiles =
     (if length tiles \<ge> 3 \<and> tiles ! 0 = tiles ! 1 \<and> tiles ! 1 = tiles ! 2
      then [((''pon'', tiles ! 0), drop 3 tiles)] else [])"

text \<open>
  \<^verbatim>\<open>begin_chi\<close> reads \<^verbatim>\<open>tiles[0]\<close>, which raises on the empty list; its only caller
  \<^verbatim>\<open>all_groups\<close> tests \<^verbatim>\<open>tiles == []\<close> first, so the function is given on non-empty
  lists only. \<^verbatim>\<open>list.remove\<close> deletes the first occurrence, as \<^const>\<open>remove1\<close> does.
\<close>

fun begin_chi :: "tile list \<Rightarrow> (group \<times> tile list) list" where
  "begin_chi (t1 # rest) =
     (let tiles = t1 # rest; suit = fst t1; n = snd t1 in
      if suit = CHR ''X'' \<or> n \<ge> 8 then []
      else
        (let t2 = (suit, n + 1); t3 = (suit, n + 2) in
         if t2 \<in> set tiles \<and> t3 \<in> set tiles
         then [((''chi'', t1), remove1 t3 (remove1 t2 (remove1 t1 tiles)))]
         else []))"

lemma begin_pon_shorter: "(g, new) \<in> set (begin_pon ts) \<Longrightarrow> length new < length ts"
  by (auto simp: begin_pon_def split: if_splits)

lemma begin_chi_shorter:
  "ts \<noteq> [] \<Longrightarrow> (g, new) \<in> set (begin_chi ts) \<Longrightarrow> length new < length ts"
  by (cases ts) (auto simp: Let_def length_remove1 split: if_splits)

function all_groups :: "tile list \<Rightarrow> group list list" where
  "all_groups tiles =
     (if tiles = [] then [[]]
      else concat (map (\<lambda>(g, new_tiles). map ((#) g) (all_groups new_tiles))
                       (begin_pon tiles @ begin_chi tiles)))"
  by pat_completeness auto
termination
  by (relation "measure length") (auto dest: begin_pon_shorter begin_chi_shorter)

declare all_groups.simps [simp del]

definition decompose_regular :: "tile list \<Rightarrow> group list list" where
  "decompose_regular tiles =
     concat (map (\<lambda>(pair, new_tiles). map ((#) pair) (all_groups new_tiles))
                 (find_pair tiles))"

text \<open>
  \<^verbatim>\<open>is_all_pairs\<close> compares \<^verbatim>\<open>tiles[i]\<close> with \<^verbatim>\<open>tiles[i+1]\<close> for \<open>i = 0, 2, 4, ...\<close>;
  \<^verbatim>\<open>all\<close> stops at the first unequal couple, and on a list of odd length whose couples
  are all equal the last index is out of range.
\<close>

fun is_all_pairs :: "tile list \<Rightarrow> py_error + bool" where
  "is_all_pairs [] = Inr True"
| "is_all_pairs [x] = Inl IndexError"
| "is_all_pairs (x # y # rest) = (if x = y then is_all_pairs rest else Inr False)"

definition is_terminal :: "tile \<Rightarrow> bool" where
  "is_terminal tile \<longleftrightarrow> fst tile \<in> set ''MPS'' \<and> snd tile \<in> {1, 9}"

definition is_honor :: "tile \<Rightarrow> bool" where
  "is_honor tile \<longleftrightarrow> fst tile = CHR ''X''"

definition is_junchan_group :: "group \<Rightarrow> bool" where
  "is_junchan_group g =
     (case g of (type, tile) \<Rightarrow>
        if type \<in> set [''pon'', ''pair''] then is_terminal tile
        else fst tile \<in> set ''MPS'' \<and> snd tile \<in> {1, 7})"

definition suits_of_tiles :: "tile list \<Rightarrow> char set" where
  "suits_of_tiles tiles = set (map fst tiles)"

text \<open>
  The scoring context \<^verbatim>\<open>options\<close> is a dictionary; a key that is absent is \<open>None\<close>.
\<close>

record options =
  fanpai_winds :: "tile list option"
  dora_ind :: "tile option"
  uradora_ind :: "tile option"
  hotei :: "bool option"
  ippatsu :: "bool option"

record hand_obj =
  h_tiles :: "tile list"
  h_wait :: tile
  h_type :: string
  h_groups :: "group list option"
  h_options :: options

definition yaku_nikoniko :: "hand_obj \<Rightarrow> bool" where
  "yaku_nikoniko h \<longleftrightarrow> h_type h = ''pairs''"

text \<open>
  In \<^verbatim>\<open>yaku_junchan\<close> the second generator is \<^verbatim>\<open>any(type == 'chi' for t in self.groups)\<close>:
  its loop variable is \<^verbatim>\<open>t\<close>, so \<^verbatim>\<open>type\<close> is not bound by it and denotes Python's
  builtin class \<^verbatim>\<open>type\<close>, which is not equal to the string \<^verbatim>\<open>'chi'\<close>.
\<close>

definition builtin_type_eq_chi :: bool where
  "builtin_type_eq_chi \<longleftrightarrow> False"

definition yaku_junchan :: "hand_obj \<Rightarrow> py_error + bool" where
  "yaku_junchan h =
     (if h_type h \<noteq> ''regular'' then Inr False
      else case h_groups h of
        None \<Rightarrow> Inl TypeError
      | Some gs \<Rightarrow> Inr (list_all is_junchan_group gs \<and> list_ex (\<lambda>t. builtin_type_eq_chi) gs))"

definition yaku_chinitsu :: "hand_obj \<Rightarrow> bool" where
  "yaku_chinitsu h \<longleftrightarrow> suits_of_tiles (h_tiles h) = set [CHR ''X'']"

definition Hand :: "tile list \<Rightarrow> tile \<Rightarrow> string \<Rightarrow> group list option \<Rightarrow> options \<Rightarrow> hand_obj" where
  "Hand ts w ty gs opts = \<lparr>h_tiles = ts, h_wait = w, h_type = ty, h_groups = gs, h_options = opts\<rparr>"

text \<open>
  \<^verbatim>\<open>all_hands\<close> is a generator; the model is the list it produces when run to the end,
  or the exception that run raises.
\<close>

definition all_hands :: "tile list \<Rightarrow> tile \<Rightarrow> options \<Rightarrow> py_error + hand_obj list" where
  "all_hands ts w opts =
     (let regular = map (\<lambda>gs. Hand ts w ''regular'' (Some gs) opts) (decompose_regular ts) in
      case is_all_pairs ts of
        Inl e \<Rightarrow> Inl e
      | Inr b \<Rightarrow> Inr (regular @ (if b then [Hand ts w ''pairs'' None opts] else [])))"

text \<open>
  Modelled from the spec: \<^verbatim>\<open>rules.ALL_TILES\<close> is used by game.py and is not in rules.py.
  The spec gives the 34 distinct tiles: suits M, P, S with ranks 1..9 and the honors
  X1..X7.
\<close>

definition ALL_TILES :: "tile list" where
  "ALL_TILES = map (Pair CHR ''M'') [1 ..< 10] @ map (Pair CHR ''P'') [1 ..< 10] @
               map (Pair CHR ''S'') [1 ..< 10] @ map (Pair CHR ''X'') [1 ..< 8]"

section \<open>Game state machine (server/game.py)\<close>

text \<open>
  The two seats are the indices 0 and 1 of the source's two-element lists
  (\<^verbatim>\<open>self.tiles\<close>, \<^verbatim>\<open>self.hand\<close>, \<^verbatim>\<open>self.discards\<close>, ...), which become functions of the
  seat; \<open>other player\<close> is \<^verbatim>\<open>1-player\<close>.
\<close>

datatype seat = Seat0 | Seat1

fun other :: "seat \<Rightarrow> seat" where
  "other Seat0 = Seat1"
| "other Seat1 = Seat0"

fun seat_idx :: "seat \<Rightarrow> int" where
  "seat_idx Seat0 = 0"
| "seat_idx Seat1 = 1"

text \<open>
  Python values that travel in messages. A dictionary of keyword arguments is the list of
  its items in insertion order.
\<close>

datatype pyval =
    PNone
  | PBool bool
  | PInt int
  | PStr string
  | PList "pyval list"
  | PDict "(string \<times> pyval) list"

type_synonym payload = "(string \<times> pyval) list"

text \<open>One call \<^verbatim>\<open>self.callback(to_player, msg_type, **msg_data)\<close>.\<close>

type_synonym event = "seat \<times> string \<times> payload"

definition tile_str :: "tile \<Rightarrow> string" where
  "tile_str tile = [fst tile, ''0123456789'' ! snd tile]"

definition PTile :: "tile \<Rightarrow> pyval" where
  "PTile tile = PStr (tile_str tile)"

definition PTiles :: "tile list \<Rightarrow> pyval" where
  "PTiles ts = PList (map PTile ts)"

definition PSeat :: "seat \<Rightarrow> pyval" where
  "PSeat i = PInt (seat_idx i)"

text \<open>
  game.py calls \<^verbatim>\<open>rules.waits\<close>, \<^verbatim>\<open>rules.best_hand\<close> and \<^verbatim>\<open>rules.BASE_POINTS\<close>, which are
  not in rules.py as given; they are parameters of the model. \<open>scored\<close> holds what
  game.py reads from the object \<^verbatim>\<open>best_hand\<close> returns: the attributes \<^verbatim>\<open>yaku\<close> and
  \<^verbatim>\<open>yakuman\<close> and the results of \<^verbatim>\<open>dora()\<close> and \<^verbatim>\<open>limit()\<close>.
\<close>

record scored =
  s_yaku :: "string list"
  s_yakuman :: bool
  s_dora :: nat
  s_limit :: nat

record rules =
  rules_waits :: "tile list \<Rightarrow> tile list"
  rules_best_hand :: "tile list \<Rightarrow> tile \<Rightarrow> options \<Rightarrow> scored"
  rules_BASE_POINTS :: "nat \<Rightarrow> int"

definition TILES :: "tile list" where
  "TILES = concat (replicate 4 ALL_TILES)"

definition PLAYER_TILES :: nat where "PLAYER_TILES = 34"
definition DISCARDS :: nat where "DISCARDS = 17"
definition DISCARD_TIME_LIMIT :: int where "DISCARD_TIME_LIMIT = 15"
definition HAND_TIME_LIMIT :: int where "HAND_TIME_LIMIT = 3 * 60"
definition EXTRA_TIME :: int where "EXTRA_TIME = 10"

text \<open>\<^verbatim>\<open>SEAT_WINDS[player^self.east]\<close>: index 0 when the seat is East.\<close>

definition SEAT_WINDS :: "bool \<Rightarrow> tile" where
  "SEAT_WINDS is_east = (if is_east then (CHR ''X'', 1) else (CHR ''X'', 3))"

text \<open>
  The attributes of a \<^verbatim>\<open>Game\<close>. \<open>sent\<close> is the sequence of the calls of
  \<^verbatim>\<open>self.callback\<close> made so far, the first call first.
\<close>

record game =
  east :: seat
  initial_tiles :: "seat \<Rightarrow> tile list"
  tiles :: "seat \<Rightarrow> tile list"
  g_dora_ind :: tile
  g_uradora_ind :: tile
  hand :: "seat \<Rightarrow> tile list option"
  waits :: "seat \<Rightarrow> tile list option"
  discards :: "seat \<Rightarrow> tile list"
  g_t :: int
  moves :: "seat \<Rightarrow> (string \<times> int) option"
  finished :: bool
  sent :: "event list"

text \<open>
  A handler returns normally (\<open>Inr\<close>) or raises (\<open>Inl\<close>); in both cases the game keeps
  the changes made up to that point.
\<close>

type_synonym 'a res = "(py_error + 'a) \<times> game"

text \<open>
  \<^verbatim>\<open>Game.__init__\<close>: \<open>all_tiles\<close> is the deck after \<^verbatim>\<open>random.shuffle\<close> (or as it is, in
  debug mode) and \<open>e\<close> the East seat, given or drawn by \<^verbatim>\<open>random.randrange(2)\<close>.
\<close>

definition Game_init :: "tile list \<Rightarrow> seat \<Rightarrow> game" where
  "Game_init all_tiles e =
     (let n = PLAYER_TILES;
          deal = (\<lambda>i. case i of Seat0 \<Rightarrow> take n all_tiles | Seat1 \<Rightarrow> take n (drop n all_tiles))
      in \<lparr>east = e, initial_tiles = deal, tiles = deal,
          g_dora_ind = all_tiles ! (n * 2), g_uradora_ind = all_tiles ! (n * 2 + 1),
          hand = (\<lambda>i. None), waits = (\<lambda>i. None), discards = (\<lambda>i. []),
          g_t = 0, moves = (\<lambda>i. None), finished = False, sent = []\<rparr>)"

text \<open>Python's truth value of \<^verbatim>\<open>self.hand[i]\<close>: false for \<^verbatim>\<open>None\<close> and for the empty list.\<close>

definition truthy :: "tile list option \<Rightarrow> bool" where
  "truthy h = (case h of None \<Rightarrow> False | Some xs \<Rightarrow> xs \<noteq> [])"

definition phase :: "game \<Rightarrow> nat" where
  "phase s =
     (if \<not> (truthy (hand s Seat0) \<and> truthy (hand s Seat1)) then 1
      else if \<not> finished s then 2
      else 3)"

definition player_turn :: "game \<Rightarrow> seat" where
  "player_turn s =
     (if length (discards s Seat0) = length (discards s Seat1) then east s
      else other (east s))"

definition callback :: "seat \<Rightarrow> string \<Rightarrow> payload \<Rightarrow> game \<Rightarrow> game" where
  "callback to_player msg_type msg_data s = s\<lparr>sent := sent s @ [(to_player, msg_type, msg_data)]\<rparr>"

definition abort :: "seat \<Rightarrow> string \<Rightarrow> game \<Rightarrow> game" where
  "abort culprit description s =
     (let msg = [(''culprit'', PSeat culprit), (''description'', PStr description)];
          s0 = (callback Seat0 ''abort'' msg s)\<lparr>finished := True\<rparr>;
          s1 = (callback Seat1 ''abort'' msg s0)\<lparr>finished := True\<rparr>
      in s1\<lparr>moves := (\<lambda>i. None)\<rparr>)"

definition expired :: "game \<Rightarrow> seat \<Rightarrow> bool" where
  "expired s i = (case moves s i of None \<Rightarrow> False | Some (move_type, deadline) \<Rightarrow> g_t s \<ge> deadline)"

definition beat :: "game \<Rightarrow> game" where
  "beat s =
     (let s1 = s\<lparr>g_t := g_t s + 1\<rparr> in
      if expired s1 Seat0 then abort Seat0 ''time limit exceeded'' s1
      else if expired s1 Seat1 then abort Seat1 ''time limit exceeded'' s1
      else s1)"

definition send_move :: "seat \<Rightarrow> game \<Rightarrow> game" where
  "send_move player s =
     (case moves s player of
        None \<Rightarrow> s
      | Some (move_type, deadline) \<Rightarrow>
          callback player ''start_move''
            [(''move_type'', PStr move_type), (''time_limit'', PInt (deadline - g_t s - EXTRA_TIME))] s)"

definition start_move :: "seat \<Rightarrow> string \<Rightarrow> int \<Rightarrow> game \<Rightarrow> unit res" where
  "start_move player move_type time_limit s =
     (if moves s player \<noteq> None then (Inl AssertionError, s)
      else
        (let deadline = g_t s + time_limit + EXTRA_TIME in
         (Inr (), send_move player (s\<lparr>moves := (moves s)(player := Some (move_type, deadline))\<rparr>))))"

definition end_move :: "seat \<Rightarrow> game \<Rightarrow> game" where
  "end_move player s = callback player ''end_move'' [] (s\<lparr>moves := (moves s)(player := None)\<rparr>)"

definition phase_one_msg :: "game \<Rightarrow> seat \<Rightarrow> payload" where
  "phase_one_msg s i =
     [(''tiles'', PTiles (initial_tiles s i)), (''dora_ind'', PTile (g_dora_ind s)),
      (''you'', PSeat i), (''east'', PSeat (east s))]"

definition start :: "game \<Rightarrow> unit res" where
  "start s =
     (case start_move Seat0 ''hand'' HAND_TIME_LIMIT (callback Seat0 ''phase_one'' (phase_one_msg s Seat0) s) of
        (Inl e, s1) \<Rightarrow> (Inl e, s1)
      | (Inr u, s1) \<Rightarrow>
          start_move Seat1 ''hand'' HAND_TIME_LIMIT (callback Seat1 ''phase_one'' (phase_one_msg s1 Seat1) s1))"

text \<open>
  The loop of \<^verbatim>\<open>on_hand\<close> that removes the tiles of the hand from the pool one by one:
  the pool as the loop leaves it, and whether every tile was found.
\<close>

fun take_tiles :: "tile list \<Rightarrow> tile list \<Rightarrow> tile list \<times> bool" where
  "take_tiles pool [] = (pool, True)"
| "take_tiles pool (tile # rest) =
     (if tile \<in> set pool then take_tiles (remove1 tile pool) rest else (pool, False))"

definition on_hand :: "rules \<Rightarrow> seat \<Rightarrow> tile list \<Rightarrow> game \<Rightarrow> unit res" where
  "on_hand R player hnd s =
     (if phase s \<noteq> 1 then (Inr (), abort player ''on_hand: wrong phase'' s)
      else if length hnd \<noteq> 13 then (Inr (), abort player ''on_hand: len != 13'' s)
      else if hand s player \<noteq> None then (Inr (), abort player ''on_hand: hand already sent'' s)
      else
        (case take_tiles (tiles s player) hnd of
           (pool, False) \<Rightarrow>
             (Inr (), abort player ''on_hand: tile not found in choices''
                        (s\<lparr>tiles := (tiles s)(player := pool)\<rparr>))
         | (pool, True) \<Rightarrow>
             (let s1 = s\<lparr>tiles := (tiles s)(player := pool),
                         hand := (hand s)(player := Some hnd),
                         waits := (waits s)(player := Some (rules_waits R hnd))\<rparr>;
                  s2 = end_move player s1;
                  s3 = callback player ''hand'' [(''hand'', PTiles hnd)] s2
              in if truthy (hand s3 Seat0) \<and> truthy (hand s3 Seat1)
                 then start_move (east s3) ''discard'' DISCARD_TIME_LIMIT
                        (callback Seat1 ''phase_two'' [] (callback Seat0 ''phase_two'' [] s3))
                 else (Inr (), callback player ''wait_for_phase_two'' [] s3))))"

definition game_options :: "game \<Rightarrow> seat \<Rightarrow> bool \<Rightarrow> options" where
  "game_options s player uradora =
     \<lparr>fanpai_winds = Some [SEAT_WINDS (player = east s)],
      dora_ind = Some (g_dora_ind s),
      uradora_ind = (if uradora then Some (g_uradora_ind s) else None),
      hotei = Some (length (discards s Seat0) = DISCARDS \<and> length (discards s Seat1) = DISCARDS),
      ippatsu = Some (length (discards s (other player)) = 1)\<rparr>"

text \<open>\<^verbatim>\<open>self.waits[player]\<close> is \<^verbatim>\<open>None\<close> until the seat has sent its hand; iterating it raises.\<close>

definition furiten :: "game \<Rightarrow> seat \<Rightarrow> py_error + bool" where
  "furiten s player =
     (let tls = set (discards s player @ butlast (discards s (other player))) in
      case waits s player of
        None \<Rightarrow> Inl TypeError
      | Some ws \<Rightarrow> Inr (list_ex (\<lambda>wt. wt \<in> tls) ws))"

definition check_ron :: "rules \<Rightarrow> seat \<Rightarrow> tile \<Rightarrow> game \<Rightarrow> bool res" where
  "check_ron R player tile s =
     (case hand s (other player) of
        None \<Rightarrow> (Inl TypeError, s)
      | Some h13 \<Rightarrow>
          (let full_hand = sort (h13 @ [tile]);
               hnd = rules_best_hand R full_hand tile (game_options s (other player) False)
           in if s_limit hnd = 0 then (Inr False, s)
              else
                (let hnd = rules_best_hand R full_hand tile (game_options s (other player) True);
                     msg = [(''player'', PSeat (other player)),
                            (''hand'', PTiles full_hand),
                            (''tile'', PTile tile),
                            (''yaku'', PList (map PStr (s_yaku hnd))),
                            (''yakuman'', PBool (s_yakuman hnd)),
                            (''dora'', PInt (int (s_dora hnd))),
                            (''points'', PInt (rules_BASE_POINTS R (s_limit hnd))),
                            (''limit'', PInt (int (s_limit hnd))),
                            (''uradora_ind'', PTile (g_uradora_ind s))];
                     s1 = s\<lparr>finished := True\<rparr>
                 in (Inr True, callback Seat1 ''ron'' msg (callback Seat0 ''ron'' msg s1)))))"

text \<open>The tail of \<^verbatim>\<open>on_discard\<close> after the ron check: the draw, or the next turn.\<close>

definition draw_or_next :: "game \<Rightarrow> unit res" where
  "draw_or_next s =
     (if length (discards s Seat0) = length (discards s Seat1) \<and> length (discards s Seat1) = DISCARDS
      then (Inr (), callback Seat1 ''draw'' [] (callback Seat0 ''draw'' [] (s\<lparr>finished := True\<rparr>)))
      else start_move (player_turn s) ''discard'' DISCARD_TIME_LIMIT s)"

definition on_discard :: "rules \<Rightarrow> seat \<Rightarrow> tile \<Rightarrow> game \<Rightarrow> unit res" where
  "on_discard R player tile s =
     (if phase s \<noteq> 2 then (Inr (), abort player ''on_discard: wrong phase'' s)
      else if player_turn s \<noteq> player then (Inr (), abort player ''on_discard: not your turn'' s)
      else if tile \<notin> set (tiles s player)
        then (Inr (), abort player ''on_discard: tile not found in choices'' s)
      else
        (let s1 = s\<lparr>tiles := (tiles s)(player := remove1 tile (tiles s player)),
                    discards := (discards s)(player := discards s player @ [tile])\<rparr>;
             s2 = end_move player s1;
             msg = [(''player'', PSeat player), (''tile'', PTile tile)];
             s3 = callback Seat1 ''discarded'' msg (callback Seat0 ''discarded'' msg s2)
         in case waits s3 (other player) of
              None \<Rightarrow> (Inl TypeError, s3)
            | Some ws \<Rightarrow>
                if tile \<in> set ws then
                  (case furiten s3 (other player) of
                     Inl e \<Rightarrow> (Inl e, s3)
                   | Inr fu \<Rightarrow>
                       if \<not> fu then
                         (case check_ron R player tile s3 of
                            (Inl e, s4) \<Rightarrow> (Inl e, s4)
                          | (Inr True, s4) \<Rightarrow> (Inr (), s4)
                          | (Inr False, s4) \<Rightarrow> draw_or_next s4)
                       else draw_or_next s3)
                else draw_or_next s3))"

text \<open>
  The states a game can be in: the room starts the game it has created, and from then on
  the game is driven by the seats' messages (\<^verbatim>\<open>on_hand\<close>, \<^verbatim>\<open>on_discard\<close>), the timer
  (\<^verbatim>\<open>beat\<close>) and the room's \<^verbatim>\<open>send_move\<close> on a reconnect, in any order and with any
  arguments. The deck is a permutation of \<^const>\<open>TILES\<close>.
\<close>

inductive reachable :: "rules \<Rightarrow> game \<Rightarrow> bool" for R :: rules where
  r_start: "mset deck = mset TILES \<Longrightarrow> reachable R (snd (start (Game_init deck e)))"
| r_on_hand: "reachable R s \<Longrightarrow> reachable R (snd (on_hand R player hnd s))"
| r_on_discard: "reachable R s \<Longrightarrow> reachable R (snd (on_discard R player tile s))"
| r_beat: "reachable R s \<Longrightarrow> reachable R (beat s)"
| r_send_move: "reachable R s \<Longrightarrow> reachable R (send_move player s)"

text \<open>The state of \<^verbatim>\<open>on_discard\<close> after the tile is moved and announced.\<close>

definition discarded_state :: "seat \<Rightarrow> tile \<Rightarrow> game \<Rightarrow> game" where
  "discarded_state player tile s =
     callback Seat1 ''discarded'' [(''player'', PSeat player), (''tile'', PTile tile)]
       (callback Seat0 ''discarded'' [(''player'', PSeat player), (''tile'', PTile tile)]
         (end_move player
           (s\<lparr>tiles := (tiles s)(player := remove1 tile (tiles s player)),
              discards := (discards s)(player := discards s player @ [tile])\<rparr>)))"

text \<open>The invariant of the reachable states.\<close>

definition both_hands :: "game \<Rightarrow> bool" where
  "both_hands s \<longleftrightarrow> truthy (hand s Seat0) \<and> truthy (hand s Seat1)"

definition game_inv :: "game \<Rightarrow> bool" where
  "game_inv s \<longleftrightarrow>
     (\<forall>p h. hand s p = Some h \<longrightarrow> length h = 13 \<and> waits s p \<noteq> None) \<and>
     (\<not> both_hands s \<longrightarrow> (\<forall>p. hand s p \<noteq> None \<longrightarrow> moves s p = None) \<and> (\<forall>p. discards s p = [])) \<and>
     (both_hands s \<longrightarrow> moves s (other (player_turn s)) = None) \<and>
     (length (discards s (east s)) = length (discards s (other (east s))) \<or>
      length (discards s (east s)) = length (discards s (other (east s))) + 1)"

section \<open>Room (server-py/room.py)\<close>

text \<open>
  A player is known to the room by what it does with \<^verbatim>\<open>send\<close> and \<^verbatim>\<open>set_room\<close>: as
  \<^verbatim>\<open>RoomTest.MockPlayer\<close>, it keeps the messages it was sent, in order, and the seat it
  was given.
\<close>

record player =
  p_messages :: "(string \<times> payload) list"
  p_idx :: "seat option"

definition send :: "string \<Rightarrow> payload \<Rightarrow> player \<Rightarrow> player" where
  "send msg_type msg pl = pl\<lparr>p_messages := p_messages pl @ [(msg_type, msg)]\<rparr>"

text \<open>
  The attributes of a \<^verbatim>\<open>Room\<close> that its methods below read or write (\<^verbatim>\<open>nicks\<close>, \<^verbatim>\<open>keys\<close>
  and \<^verbatim>\<open>id\<close> are left out). The game's callback is \<^verbatim>\<open>self.send_to_player\<close>.
\<close>

record room =
  r_game :: game
  r_players :: "seat \<Rightarrow> player option"
  r_messages :: "seat \<Rightarrow> (string \<times> payload) list"
  r_aborted :: bool

definition send_to_player :: "seat \<Rightarrow> string \<Rightarrow> payload \<Rightarrow> room \<Rightarrow> room" where
  "send_to_player idx msg_type msg r =
     (let r1 = r\<lparr>r_messages := (r_messages r)(idx := r_messages r idx @ [(msg_type, msg)])\<rparr> in
      case r_players r1 idx of
        None \<Rightarrow> r1
      | Some pl \<Rightarrow> r1\<lparr>r_players := (r_players r1)(idx := Some (send msg_type msg pl))\<rparr>)"

text \<open>
  A call of a method of the game from the room: the game makes its callback calls, which
  are the events the call adds to \<^const>\<open>sent\<close>, and each is a call of
  \<^verbatim>\<open>send_to_player\<close>, in order.
\<close>

definition call_game :: "(game \<Rightarrow> game) \<Rightarrow> room \<Rightarrow> room" where
  "call_game f r =
     (let g = r_game r; g' = f g in
      foldl (\<lambda>r1 (i, msg_type, msg). send_to_player i msg_type msg r1)
            (r\<lparr>r_game := g'\<rparr>) (drop (length (sent g)) (sent g')))"

text \<open>
  Python's slice \<^verbatim>\<open>messages[n:]\<close>: a negative \<open>n\<close> counts from the end.
\<close>

definition slice_from :: "int \<Rightarrow> 'a list \<Rightarrow> 'a list" where
  "slice_from n xs = (if n \<ge> 0 then drop (nat n) xs else drop (length xs - nat (- n)) xs)"

text \<open>
  The dictionary \<^verbatim>\<open>{'type': msg_type, **msg}\<close>: the items of \<^verbatim>\<open>msg\<close> are set one by one
  in a dictionary that starts with the key \<^verbatim>\<open>'type'\<close>; setting a key that is present
  replaces its value in place.
\<close>

fun dict_set :: "string \<Rightarrow> pyval \<Rightarrow> payload \<Rightarrow> payload" where
  "dict_set k v [] = [(k, v)]"
| "dict_set k v ((k', v') # rest) = (if k' = k then (k, v) # rest else (k', v') # dict_set k v rest)"

definition replay_dict :: "string \<Rightarrow> payload \<Rightarrow> payload" where
  "replay_dict msg_type msg = foldl (\<lambda>d (k, v). dict_set k v d) [(''type'', PStr msg_type)] msg"

text \<open>The loop of \<^verbatim>\<open>replay_messages\<close>, on the player of the seat.\<close>

fun replay_loop :: "player \<Rightarrow> (string \<times> payload) list \<Rightarrow> player" where
  "replay_loop pl [] = pl"
| "replay_loop pl ((msg_type, msg) # rest) =
     (if msg_type \<in> set [''start_move'', ''end_move''] then replay_loop pl rest
      else replay_loop (send ''replay'' [(''msg'', PDict (replay_dict msg_type msg))] pl) rest)"

text \<open>
  \<^verbatim>\<open>self.players[idx].send\<close> raises when no player is attached and a message is to be
  replayed; \<^verbatim>\<open>add_player\<close> attaches the player first.
\<close>

definition replay_messages :: "seat \<Rightarrow> int \<Rightarrow> room \<Rightarrow> (py_error + unit) \<times> room" where
  "replay_messages idx n_received r =
     (let messages = slice_from n_received (r_messages r idx) in
      case r_players r idx of
        None \<Rightarrow>
          if list_all (\<lambda>(msg_type, msg). msg_type \<in> set [''start_move'', ''end_move'']) messages
          then (Inr (), call_game (send_move idx) r)
          else (Inl AttributeError, r)
      | Some pl \<Rightarrow>
          (Inr (), call_game (send_move idx)
                     (r\<lparr>r_players := (r_players r)(idx := Some (replay_loop pl messages))\<rparr>)))"

definition set_room :: "seat \<Rightarrow> player \<Rightarrow> player" where
  "set_room idx pl = pl\<lparr>p_idx := Some idx\<rparr>"

definition add_player :: "seat \<Rightarrow> player \<Rightarrow> int \<Rightarrow> room \<Rightarrow> (py_error + unit) \<times> room" where
  "add_player idx pl n_received r =
     (if r_players r idx \<noteq> None then (Inl AssertionError, r)
      else replay_messages idx n_received
             (r\<lparr>r_players := (r_players r)(idx := Some (set_room idx pl))\<rparr>))"

section \<open>Room (server/room.py)\<close>

text \<open>
  In this version the player carries \<^verbatim>\<open>n_received\<close> and \<^verbatim>\<open>send\<close> takes the payload as one
  dictionary; \<^verbatim>\<open>add_player\<close> does not touch the game.
\<close>

record player0 =
  p0_messages :: "(string \<times> payload) list"
  p0_n_received :: int

definition send0 :: "string \<Rightarrow> payload \<Rightarrow> player0 \<Rightarrow> player0" where
  "send0 msg_type msg pl = pl\<lparr>p0_messages := p0_messages pl @ [(msg_type, msg)]\<rparr>"

record room0 =
  r0_players :: "seat \<Rightarrow> player0 option"
  r0_messages :: "seat \<Rightarrow> (string \<times> payload) list"

fun resend_loop :: "player0 \<Rightarrow> (string \<times> payload) list \<Rightarrow> player0" where
  "resend_loop pl [] = pl"
| "resend_loop pl ((msg_type, msg) # rest) = resend_loop (send0 msg_type msg pl) rest"

definition resend_messages :: "seat \<Rightarrow> room0 \<Rightarrow> (py_error + unit) \<times> room0" where
  "resend_messages idx r =
     (case r0_players r idx of
        None \<Rightarrow> (Inl AttributeError, r)
      | Some pl \<Rightarrow>
          (let messages = slice_from (p0_n_received pl) (r0_messages r idx) in
           (Inr (), r\<lparr>r0_players := (r0_players r)(idx := Some (resend_loop pl messages))\<rparr>)))"

definition add_player0 :: "seat \<Rightarrow> player0 \<Rightarrow> room0 \<Rightarrow> (py_error + unit) \<times> room0" where
  "add_player0 idx pl r =
     (if r0_players r idx \<noteq> None then (Inl AssertionError, r)
      else resend_messages idx (r\<lparr>r0_players := (r0_players r)(idx := Some pl)\<rparr>))"

text \<open>
  What attaching delivers to the seat: the messages the player holds after
  \<^verbatim>\<open>add_player\<close> beyond those it held before.
\<close>

definition delivered :: "seat \<Rightarrow> player \<Rightarrow> int \<Rightarrow> room \<Rightarrow> (string \<times> payload) list" where
  "delivered idx pl n_received r =
     (case r_players (snd (add_player idx pl n_received r)) idx of
        None \<Rightarrow> []
      | Some pl' \<Rightarrow> drop (length (p_messages pl)) (p_messages pl'))"

definition delivered0 :: "seat \<Rightarrow> player0 \<Rightarrow> room0 \<Rightarrow> (string \<times> payload) list" where
  "delivered0 idx pl r =
     (case r0_players (snd (add_player0 idx pl r)) idx of
        None \<Rightarrow> []
      | Some pl' \<Rightarrow> drop (length (p0_messages pl)) (p0_messages pl'))"

text \<open>
  For the statements about the rooms: the journal entries that are not move messages, the
  \<^verbatim>\<open>replay\<close> message that wraps an entry, and the \<^verbatim>\<open>start_move\<close> message of the move a
  seat has pending, if any.
\<close>

definition not_move :: "string \<times> payload \<Rightarrow> bool" where
  "not_move e \<longleftrightarrow> fst e \<noteq> ''start_move'' \<and> fst e \<noteq> ''end_move''"

definition wrap_replay :: "string \<times> payload \<Rightarrow> string \<times> payload" where
  "wrap_replay e = (''replay'', [(''msg'', PDict (replay_dict (fst e) (snd e)))])"

definition pending_move :: "game \<Rightarrow> seat \<Rightarrow> (string \<times> payload) list" where
  "pending_move g idx =
     (case moves g idx of
        None \<Rightarrow> []
      | Some (move_type, deadline) \<Rightarrow>
          [(''start_move'', [(''move_type'', PStr move_type),
                             (''time_limit'', PInt (deadline - g_t g - EXTRA_TIME))])])"

section \<open>The specification of a decomposition\<close>

text \<open>
  The specification of a decomposition, stated on the multiset of the tiles and not on the
  sorted list the code walks: after the pair, each group is anchored at the lowest tile
  that remains and is a pon (three copies of it) or a chi (the run \<open>t, t+1, t+2\<close> in a
  number suit, anchor rank at most 7), and the groups use up the tiles.
\<close>

fun valid_groups :: "tile multiset \<Rightarrow> group list \<Rightarrow> bool" where
  "valid_groups M [] \<longleftrightarrow> M = {#}"
| "valid_groups M ((ty, t) # gs) \<longleftrightarrow>
     M \<noteq> {#} \<and> t = Min (set_mset M) \<and>
     (ty = ''pon'' \<and> count M t \<ge> 3 \<and> valid_groups (M - {#t, t, t#}) gs \<or>
      ty = ''chi'' \<and> fst t \<in> set ''MPS'' \<and> snd t \<le> 7 \<and>
        (fst t, snd t + 1) \<in># M \<and> (fst t, snd t + 2) \<in># M \<and>
        valid_groups (M - {#t, (fst t, snd t + 1), (fst t, snd t + 2)#}) gs)"

definition valid_decomposition :: "tile multiset \<Rightarrow> group list \<Rightarrow> bool" where
  "valid_decomposition M d \<longleftrightarrow>
     (\<exists>t gs. d = (''pair'', t) # gs \<and> count M t \<ge> 2 \<and> valid_groups (M - {#t, t#}) gs)"

section \<open>Test data of rules.py and game.py\<close>

text \<open>The hand \<^verbatim>\<open>M1 M1 M1 M1 M2 M2 M2 M2 M3 M3 M3 M3 M9 M9\<close> of \<^verbatim>\<open>HandTestCase.test_yaku\<close>.\<close>

definition test_hand :: "tile list" where
  "test_hand = [(CHR ''M'', 1), (CHR ''M'', 1), (CHR ''M'', 1), (CHR ''M'', 1),
                (CHR ''M'', 2), (CHR ''M'', 2), (CHR ''M'', 2), (CHR ''M'', 2),
                (CHR ''M'', 3), (CHR ''M'', 3), (CHR ''M'', 3), (CHR ''M'', 3),
                (CHR ''M'', 9), (CHR ''M'', 9)]"


text \<open>
  The decomposition of that hand into the pair of M9 and four runs M1 M2 M3, the scoring
  context \<^verbatim>\<open>{'fanpai_winds': ['X1']}\<close> of the tests, and a hand of honors only.
\<close>

definition test_groups :: "group list" where
  "test_groups = [(''pair'', CHR ''M'', 9), (''chi'', CHR ''M'', 1), (''chi'', CHR ''M'', 1),
                  (''chi'', CHR ''M'', 1), (''chi'', CHR ''M'', 1)]"

definition test_options :: options where
  "test_options = \<lparr>fanpai_winds = Some [(CHR ''X'', 1)], dora_ind = None, uradora_ind = None,
                    hotei = None, ippatsu = None\<rparr>"

definition honor_hand :: "tile list" where
  "honor_hand = [(CHR ''X'', 1), (CHR ''X'', 1), (CHR ''X'', 1), (CHR ''X'', 2), (CHR ''X'', 2),
                 (CHR ''X'', 2), (CHR ''X'', 3), (CHR ''X'', 3), (CHR ''X'', 3), (CHR ''X'', 4),
                 (CHR ''X'', 4), (CHR ''X'', 4), (CHR ''X'', 5), (CHR ''X'', 5)]"

text \<open>
  The scenario of \<^verbatim>\<open>GameTestCase.test_win\<close>: the deck is dealt unshuffled with seat 0 as
  East, seat 0 keeps the thirteen orphans and seat 1 the hand
  \<^verbatim>\<open>M1 M2 M3 M4 M5 M6 P7 P8 P9 S1 S2 S3 S4\<close>. \<open>test_rules\<close> stands for the rules
  module on the hands of that scenario, with the values the test expects: seat 1 waits on
  S1 and S4 with a hand below mangan, seat 0 waits on every orphan with a yakuman.
\<close>

definition kokushi13 :: "tile list" where
  "kokushi13 = [(CHR ''M'', 1), (CHR ''M'', 9), (CHR ''P'', 1), (CHR ''P'', 9), (CHR ''S'', 1),
                (CHR ''S'', 9), (CHR ''X'', 1), (CHR ''X'', 2), (CHR ''X'', 3), (CHR ''X'', 4),
                (CHR ''X'', 5), (CHR ''X'', 6), (CHR ''X'', 7)]"

definition p1_hand :: "tile list" where
  "p1_hand = [(CHR ''M'', 1), (CHR ''M'', 2), (CHR ''M'', 3), (CHR ''M'', 4), (CHR ''M'', 5),
              (CHR ''M'', 6), (CHR ''P'', 7), (CHR ''P'', 8), (CHR ''P'', 9), (CHR ''S'', 1),
              (CHR ''S'', 2), (CHR ''S'', 3), (CHR ''S'', 4)]"

definition test_rules :: rules where
  "test_rules =
     \<lparr>rules_waits = (\<lambda>h. if h = kokushi13 then kokushi13
                          else if h = p1_hand then [(CHR ''S'', 1), (CHR ''S'', 4)] else []),
      rules_best_hand = (\<lambda>full tile opts.
         if full = sort (kokushi13 @ [tile])
         then \<lparr>s_yaku = [''kokushi''], s_yakuman = True, s_dora = 0, s_limit = 5\<rparr>
         else \<lparr>s_yaku = [''riichi''], s_yakuman = False, s_dora = 0, s_limit = 0\<rparr>),
      rules_BASE_POINTS = (\<lambda>l. [0, 8000, 12000, 16000, 24000, 32000] ! l)\<rparr>"

definition g_started :: game where
  "g_started = snd (start (Game_init TILES Seat0))"

definition g_hands :: game where
  "g_hands = snd (on_hand test_rules Seat1 p1_hand (snd (on_hand test_rules Seat0 kokushi13 g_started)))"

definition g_s4 :: game where
  "g_s4 = snd (on_discard test_rules Seat0 (CHR ''S'', 4) g_hands)"

text \<open>The same hands with seat 1 as East, after East's first discard.\<close>

definition g_east1 :: game where
  "g_east1 = snd (on_discard test_rules Seat1 (CHR ''M'', 7)
      (snd (on_hand test_rules Seat1 p1_hand (snd (on_hand test_rules Seat0 kokushi13
         (snd (start (Game_init TILES Seat1))))))))"

text \<open>\<^verbatim>\<open>GameTestCase.test_short_hand\<close>: seat 1 sends a hand of three tiles and the game aborts.\<close>

definition g_short :: game where
  "g_short = snd (on_hand test_rules Seat1 [(CHR ''M'', 1), (CHR ''M'', 2), (CHR ''M'', 3)] g_started)"

text \<open>
  A game played to its last discard: seat 1 is East and holds the hand of \<^verbatim>\<open>test_win\<close> that
  waits on S1 and S4 below mangan, seat 0 holds the hand without waits of
  \<^verbatim>\<open>test_furiten\<close>, and 33 discards have been made, none of them S1 or S4.
\<close>

definition junk13 :: "tile list" where
  "junk13 = [(CHR ''M'', 2), (CHR ''M'', 9), (CHR ''P'', 1), (CHR ''P'', 9), (CHR ''S'', 1),
             (CHR ''S'', 9), (CHR ''X'', 1), (CHR ''X'', 2), (CHR ''X'', 3), (CHR ''X'', 4),
             (CHR ''X'', 5), (CHR ''X'', 6), (CHR ''X'', 7)]"

definition seat0_discards :: "tile list" where
  "seat0_discards = [(CHR ''M'', 1), (CHR ''M'', 3), (CHR ''M'', 4), (CHR ''M'', 5), (CHR ''M'', 6),
     (CHR ''M'', 7), (CHR ''M'', 8), (CHR ''P'', 2), (CHR ''P'', 3), (CHR ''P'', 4), (CHR ''P'', 5),
     (CHR ''P'', 6), (CHR ''P'', 7), (CHR ''P'', 8), (CHR ''S'', 2), (CHR ''S'', 3)]"

definition seat1_discards :: "tile list" where
  "seat1_discards = [(CHR ''M'', 7), (CHR ''M'', 8), (CHR ''M'', 9), (CHR ''P'', 1), (CHR ''P'', 2),
     (CHR ''P'', 3), (CHR ''P'', 4), (CHR ''P'', 5), (CHR ''P'', 6), (CHR ''S'', 5), (CHR ''S'', 6),
     (CHR ''S'', 7), (CHR ''S'', 8), (CHR ''S'', 9), (CHR ''X'', 1), (CHR ''X'', 2)]"

fun play :: "rules \<Rightarrow> game \<Rightarrow> (seat \<times> tile) list \<Rightarrow> game" where
  "play R s [] = s"
| "play R s ((p, tile) # rest) = play R (snd (on_discard R p tile s)) rest"

definition g_last :: game where
  "g_last = snd (on_discard test_rules Seat1 (CHR ''X'', 3)
     (play test_rules
       (snd (on_hand test_rules Seat1 p1_hand (snd (on_hand test_rules Seat0 junk13
         (snd (start (Game_init TILES Seat1)))))))
       (concat (map (\<lambda>(a, b). [(Seat1, a), (Seat0, b)]) (zip seat1_discards seat0_discards)))))"

text \<open>
  A room whose game has been started and that has no player attached, and the room of
  \<^verbatim>\<open>RoomTest.test_replay_after_connect\<close> in its two versions: the game has sent
  \<^verbatim>\<open>a\<close>, \<^verbatim>\<open>b\<close>, \<^verbatim>\<open>e\<close> to seat 0 and \<^verbatim>\<open>c\<close>, \<^verbatim>\<open>d\<close> to seat 1, no player is
  attached and no move is pending.
\<close>

definition room_created :: room where
  "room_created = \<lparr>r_game = Game_init TILES Seat0, r_players = (\<lambda>i. None),
                    r_messages = (\<lambda>i. []), r_aborted = False\<rparr>"

definition room_started :: room where
  "room_started = call_game (\<lambda>g. snd (start g)) room_created"

definition test_journal :: "seat \<Rightarrow> (string \<times> payload) list" where
  "test_journal i = (case i of Seat0 \<Rightarrow> [(''a'', []), (''b'', []), (''e'', [])]
                             | Seat1 \<Rightarrow> [(''c'', []), (''d'', [])])"

definition room_test :: room where
  "room_test = \<lparr>r_game = Game_init TILES Seat0, r_players = (\<lambda>i. None),
                 r_messages = test_journal, r_aborted = False\<rparr>"

definition room0_test :: room0 where
  "room0_test = \<lparr>r0_players = (\<lambda>i. None), r0_messages = test_journal\<rparr>"

section \<open>The decomposer\<close>

lemma in_ALL_TILES: "t \<in> set ALL_TILES \<longleftrightarrow> (fst t \<in> set ''MPS'' \<and> 1 \<le> snd t \<and> snd t \<le> 9) \<or> (fst t = CHR ''X'' \<and> 1 \<le> snd t \<and> snd t \<le> 7)"
  by (cases t) (auto simp: ALL_TILES_def)

lemma concat_map_if: "concat (map (\<lambda>x. if P x then [f x] else []) xs) = map f (filter P xs)"
  by (induction xs) auto

lemma find_pair_alt:
  "find_pair ts = map (\<lambda>i. ((''pair'', ts ! i), take i ts @ drop (i + 2) ts))
     (filter (\<lambda>i. ts ! i = ts ! (i + 1) \<and> \<not> (i + 2 < length ts \<and> ts ! (i + 1) = ts ! (i + 2)))
        [0 ..< length ts - 1])"
proof -
  have "find_pair ts = concat (map (\<lambda>i. if ts ! i = ts ! (i + 1) \<and> \<not> (i + 2 < length ts \<and> ts ! (i + 1) = ts ! (i + 2))
      then [((''pair'', ts ! i), take i ts @ drop (i + 2) ts)] else []) [0 ..< length ts - 1])"
    unfolding find_pair_def find_pair_at_def by (rule arg_cong[where f=concat]) auto
  then show ?thesis by (simp only: concat_map_if)
qed

lemma find_pair_iff:
  "(p, rest) \<in> set (find_pair ts) \<longleftrightarrow>
     (\<exists>xs t ys. ts = xs @ t # t # ys \<and> (ys = [] \<or> hd ys \<noteq> t) \<and> p = (''pair'', t) \<and> rest = xs @ ys)"
  (is "?L \<longleftrightarrow> ?R")
proof
  assume ?L
  then obtain i where i: "i < length ts - 1" "ts ! i = ts ! (i + 1)"
     "\<not> (i + 2 < length ts \<and> ts ! (i + 1) = ts ! (i + 2))"
     "p = (''pair'', ts ! i)" "rest = take i ts @ drop (i + 2) ts"
    by (auto simp: find_pair_alt)
  have "ts = take i ts @ ts ! i # ts ! (i+1) # drop (i + 2) ts"
    using i(1) by (metis Suc_eq_plus1 Suc_lessD add_2_eq_Suc' id_take_nth_drop Cons_nth_drop_Suc less_diff_conv)
  moreover have "drop (i+2) ts = [] \<or> hd (drop (i+2) ts) \<noteq> ts ! i"
    using i(2,3) by (auto simp: hd_drop_conv_nth)
  ultimately show ?R using i(2,4,5) by metis
next
  assume ?R
  then obtain xs t ys where d: "ts = xs @ t # t # ys" "ys = [] \<or> hd ys \<noteq> t" "p = (''pair'', t)" "rest = xs @ ys"
    by blast
  let ?i = "length xs"
  have "?i < length ts - 1" using d(1) by simp
  moreover have "ts ! ?i = t" "ts ! (?i + 1) = t" using d(1) by (simp_all add: nth_append)
  moreover have "\<not> (?i + 2 < length ts \<and> ts ! (?i + 1) = ts ! (?i + 2))"
    using d(1,2) by (cases ys) (auto simp: nth_append)
  moreover have "take ?i ts @ drop (?i + 2) ts = rest" using d(1,4) by simp
  ultimately show ?L using d(3) unfolding find_pair_alt
    by (auto simp: image_iff intro!: bexI[where x="?i"])
qed


lemma find_pair_residue:
  assumes "(p, rest) \<in> set (find_pair ts)" "sorted ts"
  shows "\<exists>t. p = (''pair'', t) \<and> count (mset ts) t \<ge> 2 \<and> mset rest = mset ts - {#t, t#}
           \<and> sorted rest \<and> set rest \<subseteq> set ts"
proof -
  from assms(1) obtain xs t ys where d: "ts = xs @ t # t # ys" "p = (''pair'', t)" "rest = xs @ ys"
    unfolding find_pair_iff by blast
  have "sorted rest" using assms(2) d(1,3) by (auto simp: sorted_append)
  then show ?thesis using d by auto
qed

lemma sorted_le_last:
  fixes xs :: "'a::linorder list"
  assumes "sorted xs" "x \<in> set xs"
  shows "x \<le> last xs"
proof -
  have ne: "xs \<noteq> []" using assms(2) by auto
  then have "xs = butlast xs @ [last xs]" by simp
  then have "sorted (butlast xs @ [last xs])" "x \<in> set (butlast xs @ [last xs])"
    using assms by simp_all
  then show ?thesis by (auto simp: sorted_append)
qed

lemma find_pair_complete:
  assumes "sorted ts" "count (mset ts) t \<ge> 2"
  shows "\<exists>rest. ((''pair'', t), rest) \<in> set (find_pair ts)"
proof -
  have "t \<in> set ts" using assms(2) by (metis count_mset_0_iff not_numeral_le_zero)
  then obtain xs ys where s: "ts = xs @ t # ys" "t \<notin> set ys"
    by (meson split_list_last)
  have "count (mset ys) t = 0" using s(2) by (simp add: count_mset_0_iff)
  moreover have "count (mset ts) t = count (mset xs) t + 1 + count (mset ys) t"
    using s(1) by simp
  ultimately have "count (mset xs) t \<noteq> 0" using assms(2) by linarith
  then have "t \<in> set xs" by (simp add: count_mset_0_iff)
  then have "xs \<noteq> []" by auto
  have "last xs = t"
  proof -
    have "last xs \<le> t" using assms(1) s(1) \<open>xs \<noteq> []\<close> by (auto simp: sorted_append)
    moreover have "sorted xs" using assms(1) s(1) by (simp add: sorted_append)
    then have "t \<le> last xs" using \<open>t \<in> set xs\<close> by (rule sorted_le_last)
    ultimately show ?thesis by simp
  qed
  then have "xs = butlast xs @ [t]" using \<open>xs \<noteq> []\<close> by (metis append_butlast_last_id)
  then have "ts = butlast xs @ t # t # ys" using s(1) by (metis append.assoc append_Cons append_Nil)
  moreover have "ys = [] \<or> hd ys \<noteq> t" using s(2) by (cases ys) auto
  ultimately show ?thesis unfolding find_pair_iff by blast
qed

lemma find_pair_fst_distinct:
  assumes "sorted ts"
  shows "distinct (map fst (find_pair ts))"
proof -
  let ?c = "\<lambda>i. ts ! i = ts ! (i + 1) \<and> \<not> (i + 2 < length ts \<and> ts ! (i + 1) = ts ! (i + 2))"
  let ?is = "filter ?c [0 ..< length ts - 1]"
  have m: "map fst (find_pair ts) = map (\<lambda>i. (''pair'', ts ! i)) ?is"
    by (simp add: find_pair_alt comp_def)
  have ord: False if a: "a \<in> set ?is" and b: "b \<in> set ?is" and ab: "a < b" and eq: "ts ! a = ts ! b" for a b
  proof -
    have bl: "b + 1 < length ts" using b by auto
    have "ts ! a \<le> ts ! (a + 2)" using assms ab bl by (auto intro!: sorted_nth_mono)
    moreover have "ts ! (a + 2) \<le> ts ! (b + 1)" using assms ab bl by (auto intro!: sorted_nth_mono)
    moreover have "ts ! (b + 1) = ts ! a" using b eq by auto
    ultimately have "ts ! (a + 2) = ts ! a" by simp
    moreover have "a + 2 < length ts" using ab bl by simp
    moreover have "ts ! a = ts ! (a + 1)" using a by auto
    ultimately show False using a by auto
  qed
  have "inj_on (\<lambda>i. (''pair'', ts ! i)) (set ?is)"
  proof (rule inj_onI)
    fix i j assume i: "i \<in> set ?is" and j: "j \<in> set ?is" and e: "(''pair'', ts ! i) = (''pair'', ts ! j)"
    then have "ts ! i = ts ! j" by simp
    then show "i = j" using ord[OF i j] ord[OF j i] by (cases i j rule: linorder_cases) auto
  qed
  then show ?thesis unfolding m by (simp add: distinct_map)
qed

lemma sorted_Cons_mem_hd:
  fixes x :: "'a::linorder"
  assumes "sorted (x # xs)" "x \<in> set xs"
  shows "\<exists>r. xs = x # r"
proof (cases xs)
  case Nil
  then show ?thesis using assms by simp
next
  case (Cons y r)
  have "x \<le> y" using assms(1) Cons by simp
  moreover have "y \<le> x" using assms Cons by auto
  ultimately show ?thesis using Cons by simp
qed

lemma begin_pon_nonempty:
  fixes t1 :: tile
  assumes "begin_pon (t1 # rest) \<noteq> []"
  shows "\<exists>r. rest = t1 # t1 # r"
proof -
  from assms have c: "length (t1 # rest) \<ge> 3" "(t1 # rest) ! 0 = (t1 # rest) ! 1"
    "(t1 # rest) ! 1 = (t1 # rest) ! 2"
    by (auto simp: begin_pon_def split: if_splits)
  from c(1) obtain a r1 where r1: "rest = a # r1" by (cases rest) auto
  with c(1) obtain b r where r: "r1 = b # r" by (cases r1) auto
  show ?thesis using c(2,3) r1 r by simp
qed

lemma begin_pon_sorted:
  assumes "sorted (t1 # rest)"
  shows "begin_pon (t1 # rest) =
           (if count (mset (t1 # rest)) t1 \<ge> 3 then [((''pon'', t1), drop 2 rest)] else [])"
proof (cases "count (mset (t1 # rest)) t1 \<ge> 3")
  case True
  then have c2: "2 \<le> count (mset rest) t1" by simp
  then have "t1 \<in> set rest" by (metis count_mset_0_iff not_numeral_le_zero)
  then obtain r1 where r1: "rest = t1 # r1" using sorted_Cons_mem_hd[OF assms] by blast
  then have "1 \<le> count (mset r1) t1" using c2 by simp
  then have "t1 \<in> set r1" by (metis count_mset_0_iff not_one_le_zero)
  moreover have "sorted (t1 # r1)" using assms r1 by simp
  ultimately obtain r where "r1 = t1 # r" using sorted_Cons_mem_hd by blast
  then show ?thesis using True r1 by (simp add: begin_pon_def)
next
  case False
  have "begin_pon (t1 # rest) = []"
  proof (rule ccontr)
    assume "begin_pon (t1 # rest) \<noteq> []"
    then obtain r where "rest = t1 # t1 # r" using begin_pon_nonempty by blast
    then show False using False by simp
  qed
  then show ?thesis using False by simp
qed

lemma pon_residue:
  fixes t1 :: tile
  assumes "sorted (t1 # rest)" "count (mset (t1 # rest)) t1 \<ge> 3"
  shows "mset (drop 2 rest) = mset (t1 # rest) - {#t1, t1, t1#} \<and> sorted (drop 2 rest)
         \<and> set (drop 2 rest) \<subseteq> set (t1 # rest)"
proof -
  have "begin_pon (t1 # rest) \<noteq> []" using begin_pon_sorted[OF assms(1)] assms(2) by simp
  then obtain r where "rest = t1 # t1 # r" using begin_pon_nonempty by blast
  then show ?thesis using assms(1) by auto
qed

lemma chi_residue:
  assumes "sorted ts" "t2 \<in> set ts" "t3 \<in> set ts" "t1 \<in> set ts" "t1 \<noteq> t2" "t1 \<noteq> t3" "t2 \<noteq> t3"
  shows "mset (remove1 t3 (remove1 t2 (remove1 t1 ts))) = mset ts - {#t1, t2, t3#}
         \<and> sorted (remove1 t3 (remove1 t2 (remove1 t1 ts)))
         \<and> set (remove1 t3 (remove1 t2 (remove1 t1 ts))) \<subseteq> set ts"
proof -
  have "sorted (remove1 t3 (remove1 t2 (remove1 t1 ts)))"
    using assms(1) by (simp add: sorted_remove1)
  moreover have "set (remove1 t3 (remove1 t2 (remove1 t1 ts))) \<subseteq> set ts"
    by (meson notin_set_remove1 subsetI)
  moreover have "mset (remove1 t3 (remove1 t2 (remove1 t1 ts))) = mset ts - {#t1, t2, t3#}"
    by (simp add: multiset_eq_iff)
  ultimately show ?thesis by simp
qed

lemma in_concat_map_cons:
  "gs \<in> set (concat (map (\<lambda>(g, new). map ((#) g) (F new)) ps)) \<longleftrightarrow>
     (\<exists>g new gs'. (g, new) \<in> set ps \<and> gs = g # gs' \<and> gs' \<in> set (F new))"
  by (induction ps) auto

lemma valid_groups_Nil_iff: "valid_groups {#} gs \<longleftrightarrow> gs = []"
  by (cases gs) auto

lemma all_groups_iff:
  "sorted ts \<Longrightarrow> set ts \<subseteq> set ALL_TILES \<Longrightarrow>
     gs \<in> set (all_groups ts) \<longleftrightarrow> valid_groups (mset ts) gs"
proof (induction ts arbitrary: gs rule: all_groups.induct)
  case (1 ts)
  show ?case
  proof (cases ts)
    case Nil
    then show ?thesis by (simp add: all_groups.simps valid_groups_Nil_iff)
  next
    case (Cons t1 rest)
    let ?t2 = "(fst t1, snd t1 + 1)" and ?t3 = "(fst t1, snd t1 + 2)"
    let ?R = "remove1 ?t3 (remove1 ?t2 (remove1 t1 ts))"
    let ?chi = "fst t1 \<in> set ''MPS'' \<and> snd t1 \<le> 7 \<and> ?t2 \<in> set ts \<and> ?t3 \<in> set ts"
    have srt: "sorted (t1 # rest)" using "1.prems"(1) Cons by simp
    have t1v: "t1 \<in> set ALL_TILES" using "1.prems"(2) Cons by simp
    have minT: "Min (set ts) = t1"
      using srt Cons by (auto intro!: Min_eqI)
    have pon: "begin_pon ts = (if count (mset ts) t1 \<ge> 3 then [((''pon'', t1), drop 2 rest)] else [])"
      using begin_pon_sorted[OF srt] Cons by simp
    have chi: "begin_chi ts = (if ?chi then [((''chi'', t1), ?R)] else [])"
      using t1v unfolding Cons in_ALL_TILES by (auto simp: Let_def)
    have mem: "gs0 \<in> set (all_groups ts) \<longleftrightarrow>
       (\<exists>g new gs'. (g, new) \<in> set (begin_pon ts @ begin_chi ts) \<and> gs0 = g # gs' \<and> gs' \<in> set (all_groups new))" for gs0
      using Cons by (subst all_groups.simps) (simp only: in_concat_map_cons list.simps if_False)
    have IHpon: "gs' \<in> set (all_groups (drop 2 rest)) \<longleftrightarrow> valid_groups (mset ts - {#t1, t1, t1#}) gs'"
      if "count (mset ts) t1 \<ge> 3" for gs'
    proof -
      have r: "mset (drop 2 rest) = mset ts - {#t1, t1, t1#}" "sorted (drop 2 rest)"
        "set (drop 2 rest) \<subseteq> set ts"
        using pon_residue[OF srt] that Cons by auto
      have "((''pon'', t1), drop 2 rest) \<in> set (begin_pon ts @ begin_chi ts)" using pon that by simp
      from "1.IH"[OF _ this refl r(2)] r(1,3) "1.prems"(2) Cons show ?thesis by auto
    qed
    have IHchi: "gs' \<in> set (all_groups ?R) \<longleftrightarrow> valid_groups (mset ts - {#t1, ?t2, ?t3#}) gs'"
      if "?chi" for gs'
    proof -
      have r: "mset ?R = mset ts - {#t1, ?t2, ?t3#}" "sorted ?R" "set ?R \<subseteq> set ts"
        using chi_residue[of ts ?t2 ?t3 t1] "1.prems"(1) that Cons by (auto simp: prod_eq_iff)
      have "((''chi'', t1), ?R) \<in> set (begin_pon ts @ begin_chi ts)" using chi that by simp
      from "1.IH"[OF _ this refl r(2)] r(1,3) "1.prems"(2) Cons show ?thesis by auto
    qed
    show ?thesis
    proof (cases gs)
      case Nil
      then show ?thesis using mem[of "[]"] Cons by simp
    next
      case gc: (Cons g gs')
      obtain ty t where g: "g = (ty, t)" by (cases g)
      have ne: "mset ts \<noteq> {#}" using Cons by simp
      have "(ty, t) # gs' \<in> set (all_groups ts) \<longleftrightarrow>
              (ty = ''pon'' \<and> t = t1 \<and> count (mset ts) t1 \<ge> 3 \<and> gs' \<in> set (all_groups (drop 2 rest))) \<or>
              (ty = ''chi'' \<and> t = t1 \<and> ?chi \<and> gs' \<in> set (all_groups ?R))"
        unfolding mem pon chi by (cases t1) auto
      also have "\<dots> \<longleftrightarrow> valid_groups (mset ts) ((ty, t) # gs')"
        unfolding valid_groups.simps set_mset_mset minT
        using IHpon IHchi ne by auto
      finally show ?thesis unfolding gc g .
    qed
  qed
qed

lemma distinct_concat_map_cons:
  "distinct (map fst ps) \<Longrightarrow> (\<And>g new. (g, new) \<in> set ps \<Longrightarrow> distinct (F new)) \<Longrightarrow>
     distinct (concat (map (\<lambda>(g, new). map ((#) g) (F new)) ps))"
proof (induction ps)
  case Nil
  then show ?case by simp
next
  case (Cons p ps)
  obtain g new where p: "p = (g, new)" by (cases p)
  have d1: "distinct (map ((#) g) (F new))"
    using Cons.prems(2)[of g new] p by (simp add: distinct_map)
  have d2: "distinct (concat (map (\<lambda>(g, new). map ((#) g) (F new)) ps))"
    using Cons by auto
  have "set (map ((#) g) (F new)) \<inter> set (concat (map (\<lambda>(g, new). map ((#) g) (F new)) ps)) = {}"
  proof (rule ccontr)
    assume "\<not> ?thesis"
    then obtain x where x: "x \<in> set (map ((#) g) (F new))"
       "x \<in> set (concat (map (\<lambda>(g, new). map ((#) g) (F new)) ps))" by blast
    from x(2) obtain g' new' gs' where "(g', new') \<in> set ps" "x = g' # gs'"
      unfolding in_concat_map_cons by blast
    moreover from x(1) obtain gs where "x = g # gs" by auto
    ultimately have "g \<in> fst ` set ps" by force
    then show False using Cons.prems(1) p by simp
  qed
  then show ?case using d1 d2 p by simp
qed

lemma begin_fst_distinct: "ts \<noteq> [] \<Longrightarrow> distinct (map fst (begin_pon ts @ begin_chi ts))"
  by (cases ts) (auto simp: begin_pon_def Let_def)

lemma distinct_all_groups: "distinct (all_groups ts)"
proof (induction ts rule: all_groups.induct)
  case (1 ts)
  show ?case
  proof (cases "ts = []")
    case True
    then show ?thesis by (simp add: all_groups.simps)
  next
    case False
    have "distinct (concat (map (\<lambda>(g, new). map ((#) g) (all_groups new)) (begin_pon ts @ begin_chi ts)))"
      using begin_fst_distinct[OF False] "1.IH"[OF False] by (rule distinct_concat_map_cons) auto
    then show ?thesis using False by (subst all_groups.simps) simp
  qed
qed

lemma valid_groups_size: "valid_groups M gs \<Longrightarrow> size M = 3 * length gs"
proof (induction gs arbitrary: M)
  case Nil
  then show ?case by simp
next
  case (Cons g gs)
  obtain ty t where g: "g = (ty, t)" by (cases g)
  let ?t2 = "(fst t, snd t + 1)" and ?t3 = "(fst t, snd t + 2)"
  from Cons.prems g consider
      (pon) "count M t \<ge> 3" "valid_groups (M - {#t, t, t#}) gs"
    | (chi) "?t2 \<in># M" "?t3 \<in># M" "t \<in># M" "valid_groups (M - {#t, ?t2, ?t3#}) gs"
    by (auto simp: Min_in)
  then show ?case
  proof cases
    case pon
    have "{#t, t, t#} \<subseteq># M"
      by (rule mset_subset_eqI) (use pon(1) in auto)
    then have "size (M - {#t, t, t#}) = size M - 3" by (simp add: size_Diff_submset)
    moreover have "size M \<ge> 3" using \<open>{#t, t, t#} \<subseteq># M\<close> size_mset_mono by fastforce
    ultimately show ?thesis using Cons.IH[OF pon(2)] by simp
  next
    case chi
    have "count M t \<ge> 1" "count M ?t2 \<ge> 1" "count M ?t3 \<ge> 1"
      using chi(1,2,3) by (simp_all add: Suc_le_eq)
    then have "{#t, ?t2, ?t3#} \<subseteq># M"
      by (intro mset_subset_eqI) (auto simp: prod_eq_iff)
    then have "size (M - {#t, ?t2, ?t3#}) = size M - 3" by (simp add: size_Diff_submset)
    moreover have "size M \<ge> 3" using \<open>{#t, ?t2, ?t3#} \<subseteq># M\<close> size_mset_mono by fastforce
    ultimately show ?thesis using Cons.IH[OF chi(4)] by simp
  qed
qed

text \<open>
  Claim C2. For a sorted hand of 14 tiles, \<^const>\<open>decompose_regular\<close> yields exactly the
  lists \<open>[pair, g1, g2, g3, g4]\<close> that the specification \<^const>\<open>valid_decomposition\<close>
  admits (pair first, each further group a pon or a chi anchored at the lowest tile that
  remains), it yields no list twice, every list has five groups, and the scan for the
  pair yields nothing at a position \<open>i\<close> with \<open>tiles[i] = tiles[i+1] = tiles[i+2]\<close>.
\<close>

theorem C2_decompose_regular_exact:
  assumes "sorted ts" and "length ts = 14" and "set ts \<subseteq> set ALL_TILES"
  shows "set (decompose_regular ts) = {d. valid_decomposition (mset ts) d}
       \<and> distinct (decompose_regular ts)
       \<and> (\<forall>d \<in> set (decompose_regular ts). length d = 5)
       \<and> (\<forall>i. i + 2 < length ts \<and> ts ! i = ts ! (i + 1) \<and> ts ! (i + 1) = ts ! (i + 2)
              \<longrightarrow> find_pair_at ts i = [])"
proof -
  have mem: "d \<in> set (decompose_regular ts) \<longleftrightarrow> valid_decomposition (mset ts) d" for d
  proof
    assume "d \<in> set (decompose_regular ts)"
    then obtain p rest gs where p: "(p, rest) \<in> set (find_pair ts)" "d = p # gs"
        "gs \<in> set (all_groups rest)"
      unfolding decompose_regular_def in_concat_map_cons by blast
    from find_pair_residue[OF p(1) assms(1)] obtain t where t: "p = (''pair'', t)"
        "count (mset ts) t \<ge> 2" "mset rest = mset ts - {#t, t#}" "sorted rest" "set rest \<subseteq> set ts"
      by blast
    have "valid_groups (mset rest) gs"
      using all_groups_iff[of rest gs] t(4,5) assms(3) p(3) by auto
    then show "valid_decomposition (mset ts) d"
      unfolding valid_decomposition_def using p(2) t(1,2,3) by auto
  next
    assume "valid_decomposition (mset ts) d"
    then obtain t gs where d: "d = (''pair'', t) # gs" "count (mset ts) t \<ge> 2"
        "valid_groups (mset ts - {#t, t#}) gs"
      unfolding valid_decomposition_def by blast
    from find_pair_complete[OF assms(1) d(2)] obtain rest where
      r: "((''pair'', t), rest) \<in> set (find_pair ts)" by blast
    from find_pair_residue[OF r assms(1)] have r': "mset rest = mset ts - {#t, t#}" "sorted rest"
        "set rest \<subseteq> set ts" by auto
    have "gs \<in> set (all_groups rest)"
      using all_groups_iff[of rest gs] r' assms(3) d(3) by auto
    then show "d \<in> set (decompose_regular ts)"
      unfolding decompose_regular_def in_concat_map_cons using r d(1) by blast
  qed
  have dist: "distinct (decompose_regular ts)"
    unfolding decompose_regular_def
    using find_pair_fst_distinct[OF assms(1)] distinct_all_groups
    by (rule distinct_concat_map_cons)
  have len: "length d = 5" if "d \<in> set (decompose_regular ts)" for d
  proof -
    from that obtain t gs where d: "d = (''pair'', t) # gs" "count (mset ts) t \<ge> 2"
        "valid_groups (mset ts - {#t, t#}) gs"
      unfolding mem valid_decomposition_def by blast
    have "{#t, t#} \<subseteq># mset ts" by (rule mset_subset_eqI) (use d(2) in auto)
    then have "size (mset ts - {#t, t#}) = 12" using assms(2) by (simp add: size_Diff_submset)
    then show ?thesis using valid_groups_size[OF d(3)] d(1) by simp
  qed
  have skip: "find_pair_at ts i = []"
    if "i + 2 < length ts \<and> ts ! i = ts ! (i + 1) \<and> ts ! (i + 1) = ts ! (i + 2)" for i
    using that by (simp add: find_pair_at_def)
  show ?thesis using mem dist len skip by blast
qed

theorem C2_decompose_regular_exact_witness:
  "sorted test_hand \<and> length test_hand = 14 \<and> set test_hand \<subseteq> set ALL_TILES
   \<and> set (decompose_regular test_hand) = {d. valid_decomposition (mset test_hand) d}
   \<and> distinct (decompose_regular test_hand)
   \<and> list_all (\<lambda>d. length d = 5) (decompose_regular test_hand)
   \<and> find_pair_at test_hand 0 = []"
proof -
  have h: "sorted test_hand" "length test_hand = 14" "set test_hand \<subseteq> set ALL_TILES"
    by (simp_all add: test_hand_def ALL_TILES_def)
  have i: "0 + 2 < length test_hand \<and> test_hand ! 0 = test_hand ! (0 + 1) \<and> test_hand ! (0 + 1) = test_hand ! (0 + 2)"
    by (simp add: test_hand_def)
  show ?thesis using h i C2_decompose_regular_exact[OF h] unfolding list_all_iff by blast
qed

text \<open>
  The lists are compared as lists. On the test hand the same four groups appear in two of
  the three results, with the pon and the chi anchored at M1 in either order.
\<close>

lemma decompose_regular_test_hand:
  "decompose_regular test_hand =
     [[(''pair'', CHR ''M'', 9), (''pon'', CHR ''M'', 1), (''chi'', CHR ''M'', 1), (''pon'', CHR ''M'', 2), (''pon'', CHR ''M'', 3)],
      [(''pair'', CHR ''M'', 9), (''chi'', CHR ''M'', 1), (''pon'', CHR ''M'', 1), (''pon'', CHR ''M'', 2), (''pon'', CHR ''M'', 3)],
      [(''pair'', CHR ''M'', 9), (''chi'', CHR ''M'', 1), (''chi'', CHR ''M'', 1), (''chi'', CHR ''M'', 1), (''chi'', CHR ''M'', 1)]]"
  unfolding test_hand_def by code_simp

section \<open>The yaku and the seven pairs: claims\<close>

text \<open>
  Claim C4 does not hold of the code: \<^const>\<open>is_all_pairs\<close> compares the tiles two by two,
  so four equal tiles pass as two pairs. The hand of \<^verbatim>\<open>test_yaku\<close> has four M1, four M2
  and four M3, and \<^const>\<open>all_hands\<close> yields a \<^verbatim>\<open>pairs\<close> hand for it after the regular ones.
\<close>

theorem C4_quad_passes_as_two_pairs:
  "count (mset test_hand) (CHR ''M'', 1) = 4 \<and>
   is_all_pairs test_hand = Inr True \<and>
   all_hands test_hand w opts =
     Inr (map (\<lambda>gs. Hand test_hand w ''regular'' (Some gs) opts) (decompose_regular test_hand)
          @ [Hand test_hand w ''pairs'' None opts]) \<and>
   yaku_nikoniko (Hand test_hand w ''pairs'' None opts)"
  by (simp add: all_hands_def test_hand_def yaku_nikoniko_def Hand_def)

text \<open>
  Claim C5 does not hold of the code: \<^const>\<open>yaku_chinitsu\<close> compares the set of suits with
  \<^verbatim>\<open>{'X'}\<close>. The hand of \<^verbatim>\<open>test_yaku\<close>, all of suit M, is refused, and a hand of honors
  only is accepted.
\<close>

theorem C5_chinitsu_is_honors_only:
  "suits_of_tiles test_hand = {CHR ''M''} \<and>
   \<not> yaku_chinitsu (Hand test_hand w ty gs opts) \<and>
   yaku_chinitsu (Hand honor_hand w ty gs opts)"
  by (simp add: yaku_chinitsu_def suits_of_tiles_def Hand_def test_hand_def honor_hand_def)

text \<open>
  Claim C6 does not hold of the code: the test for a chi in \<^const>\<open>yaku_junchan\<close> compares
  Python's builtin \<^verbatim>\<open>type\<close> with \<^verbatim>\<open>'chi'\<close> and is never true. The hand of \<^verbatim>\<open>test_yaku\<close>
  has the decomposition of the pair of M9 and four runs M1 M2 M3: every group has a
  terminal, there is no honor, there is a chi, and the yaku is not given.
\<close>

theorem C6_junchan_never_given:
  "test_groups \<in> set (decompose_regular test_hand) \<and>
   list_all is_junchan_group test_groups \<and>
   list_ex (\<lambda>g. fst g = ''chi'') test_groups \<and>
   \<not> list_ex is_honor test_hand \<and>
   yaku_junchan (Hand test_hand w ''regular'' (Some test_groups) opts) = Inr False"
proof -
  have "test_groups \<in> set (decompose_regular test_hand)"
    by (simp add: decompose_regular_test_hand test_groups_def)
  moreover have "list_all is_junchan_group test_groups \<and> list_ex (\<lambda>g. fst g = ''chi'') test_groups"
    by (simp add: test_groups_def is_junchan_group_def is_terminal_def)
  moreover have "\<not> list_ex is_honor test_hand"
    by (simp add: is_honor_def test_hand_def)
  moreover have "yaku_junchan (Hand test_hand w ''regular'' (Some test_groups) opts) = Inr False"
    by (simp add: yaku_junchan_def Hand_def builtin_type_eq_chi_def test_groups_def)
  ultimately show ?thesis by simp
qed

lemma yaku_junchan_never_True: "yaku_junchan h \<noteq> Inr True"
  by (simp add: yaku_junchan_def builtin_type_eq_chi_def list_ex_iff split: option.splits)

section \<open>The game: how the handlers change the state\<close>

lemma other_neq [simp]: "other p \<noteq> p" "p \<noteq> other p"
  by (cases p; simp)+

lemma other_other [simp]: "other (other p) = p"
  by (cases p) simp_all

lemma seat_neq_iff: "q \<noteq> p \<longleftrightarrow> q = other p"
  by (cases p; cases q) simp_all

lemma callback_fields [simp]:
  "east (callback i m d s) = east s" "tiles (callback i m d s) = tiles s"
  "hand (callback i m d s) = hand s" "waits (callback i m d s) = waits s"
  "discards (callback i m d s) = discards s" "moves (callback i m d s) = moves s"
  "finished (callback i m d s) = finished s" "g_t (callback i m d s) = g_t s"
  "g_dora_ind (callback i m d s) = g_dora_ind s" "g_uradora_ind (callback i m d s) = g_uradora_ind s"
  "initial_tiles (callback i m d s) = initial_tiles s"
  "sent (callback i m d s) = sent s @ [(i, m, d)]"
  by (simp_all add: callback_def)

lemma abort_fields [simp]:
  "east (abort c d s) = east s" "tiles (abort c d s) = tiles s"
  "hand (abort c d s) = hand s" "waits (abort c d s) = waits s"
  "discards (abort c d s) = discards s" "moves (abort c d s) = (\<lambda>i. None)"
  "finished (abort c d s) = True" "g_t (abort c d s) = g_t s"
  "sent (abort c d s) = sent s @
     [(Seat0, ''abort'', [(''culprit'', PSeat c), (''description'', PStr d)]),
      (Seat1, ''abort'', [(''culprit'', PSeat c), (''description'', PStr d)])]"
  by (simp_all add: abort_def Let_def)

lemma end_move_fields [simp]:
  "east (end_move p s) = east s" "tiles (end_move p s) = tiles s"
  "hand (end_move p s) = hand s" "waits (end_move p s) = waits s"
  "discards (end_move p s) = discards s" "moves (end_move p s) = (moves s)(p := None)"
  "finished (end_move p s) = finished s" "g_t (end_move p s) = g_t s"
  "g_uradora_ind (end_move p s) = g_uradora_ind s" "g_dora_ind (end_move p s) = g_dora_ind s"
  "sent (end_move p s) = sent s @ [(p, ''end_move'', [])]"
  by (simp_all add: end_move_def)

lemma send_move_fields [simp]:
  "east (send_move p s) = east s" "tiles (send_move p s) = tiles s"
  "hand (send_move p s) = hand s" "waits (send_move p s) = waits s"
  "discards (send_move p s) = discards s" "moves (send_move p s) = moves s"
  "finished (send_move p s) = finished s" "g_t (send_move p s) = g_t s"
  "g_uradora_ind (send_move p s) = g_uradora_ind s" "g_dora_ind (send_move p s) = g_dora_ind s"
  by (simp_all add: send_move_def split: option.splits)

lemma start_move_fields [simp]:
  "east (snd (start_move p m l s)) = east s" "tiles (snd (start_move p m l s)) = tiles s"
  "hand (snd (start_move p m l s)) = hand s" "waits (snd (start_move p m l s)) = waits s"
  "discards (snd (start_move p m l s)) = discards s"
  "finished (snd (start_move p m l s)) = finished s" "g_t (snd (start_move p m l s)) = g_t s"
  by (simp_all add: start_move_def Let_def)

lemma start_move_moves:
  "moves (snd (start_move p m l s)) q = (if q = p \<and> moves s p = None then Some (m, g_t s + l + EXTRA_TIME) else moves s q)"
  by (simp add: start_move_def Let_def)

lemma start_move_ok: "moves s p = None \<Longrightarrow> fst (start_move p m l s) = Inr ()"
  by (simp add: start_move_def Let_def)

lemma draw_or_next_fields [simp]:
  "east (snd (draw_or_next s)) = east s" "tiles (snd (draw_or_next s)) = tiles s"
  "hand (snd (draw_or_next s)) = hand s" "waits (snd (draw_or_next s)) = waits s"
  "discards (snd (draw_or_next s)) = discards s"
  by (simp_all add: draw_or_next_def)

lemma check_ron_fields [simp]:
  "east (snd (check_ron R p tl0 s)) = east s" "tiles (snd (check_ron R p tl0 s)) = tiles s"
  "hand (snd (check_ron R p tl0 s)) = hand s" "waits (snd (check_ron R p tl0 s)) = waits s"
  "discards (snd (check_ron R p tl0 s)) = discards s" "moves (snd (check_ron R p tl0 s)) = moves s"
  by (simp_all add: check_ron_def Let_def split: option.splits)

lemma player_turn_alt:
  "player_turn s = (if length (discards s (east s)) = length (discards s (other (east s))) then east s else other (east s))"
  by (cases "east s") (auto simp: player_turn_def)

lemma inv_start: "game_inv (snd (start (Game_init deck e)))"
  by (simp add: game_inv_def both_hands_def start_def Game_init_def start_move_def Let_def truthy_def
      send_move_def callback_def split: prod.splits sum.splits)

lemma game_inv_cong:
  assumes "game_inv s" "hand s' = hand s" "waits s' = waits s" "discards s' = discards s"
    "east s' = east s" "\<And>p. moves s p = None \<Longrightarrow> moves s' p = None"
  shows "game_inv s'"
proof -
  have pt: "player_turn s' = player_turn s" using assms(4,5) by (simp add: player_turn_def)
  have bh: "both_hands s' = both_hands s" using assms(2) by (simp add: both_hands_def)
  show ?thesis using assms unfolding game_inv_def pt bh by auto
qed

lemma inv_abort: "game_inv s \<Longrightarrow> game_inv (abort c d s)"
  by (erule game_inv_cong) simp_all

lemma inv_abort_tiles: "game_inv s \<Longrightarrow> game_inv (abort c d (s\<lparr>tiles := x\<rparr>))"
  by (erule game_inv_cong) simp_all

lemma inv_beat: "game_inv s \<Longrightarrow> game_inv (beat s)"
  by (erule game_inv_cong) (simp_all add: beat_def Let_def)

lemma inv_send_move: "game_inv s \<Longrightarrow> game_inv (send_move p s)"
  by (erule game_inv_cong) simp_all

lemma inv_on_hand: "game_inv s \<Longrightarrow> game_inv (snd (on_hand R player hnd s))"
proof -
  assume i: "game_inv s"
  show ?thesis
  proof (cases "phase s \<noteq> 1 \<or> length hnd \<noteq> 13 \<or> hand s player \<noteq> None \<or> \<not> snd (take_tiles (tiles s player) hnd)")
    case True
    then show ?thesis using i
      by (auto simp: on_hand_def inv_abort inv_abort_tiles split: prod.splits bool.splits)
  next
    case False
    then have ph: "\<not> both_hands s" and len: "length hnd = 13" and hn: "hand s player = None"
      by (auto simp: phase_def both_hands_def split: if_splits)
    obtain pool where tt: "take_tiles (tiles s player) hnd = (pool, True)"
      using False by (cases "take_tiles (tiles s player) hnd") auto
    define s3 where "s3 = callback player ''hand'' [(''hand'', PTiles hnd)] (end_move player
        (s\<lparr>tiles := (tiles s)(player := pool), hand := (hand s)(player := Some hnd),
           waits := (waits s)(player := Some (rules_waits R hnd))\<rparr>))"
    have f3: "hand s3 = (hand s)(player := Some hnd)" "waits s3 = (waits s)(player := Some (rules_waits R hnd))"
      "discards s3 = discards s" "east s3 = east s" "moves s3 = (moves s)(player := None)"
      by (simp_all add: s3_def)
    have d0: "\<And>p. discards s p = []" and m0: "\<And>p. hand s p \<noteq> None \<Longrightarrow> moves s p = None"
      using i ph by (auto simp: game_inv_def)
    have h13: "\<And>p h. hand s3 p = Some h \<Longrightarrow> length h = 13 \<and> waits s3 p \<noteq> None"
      using i len by (auto simp: f3 game_inv_def split: if_splits)
    have res: "snd (on_hand R player hnd s) =
      (if both_hands s3 then snd (start_move (east s3) ''discard'' DISCARD_TIME_LIMIT
                        (callback Seat1 ''phase_two'' [] (callback Seat0 ''phase_two'' [] s3)))
       else callback player ''wait_for_phase_two'' [] s3)"
      using False tt by (simp add: on_hand_def Let_def s3_def both_hands_def)
    show ?thesis
    proof (cases "both_hands s3")
      case True
      then have "hand s (other player) \<noteq> None"
        by (cases player) (auto simp: both_hands_def f3 truthy_def split: option.splits)
      then have mo: "moves s3 p = None" for p
        using m0[of "other player"] by (cases "p = player") (auto simp: f3 seat_neq_iff)
      let ?s' = "snd (on_hand R player hnd s)"
      have f': "hand ?s' = hand s3" "waits ?s' = waits s3" "discards ?s' = discards s3" "east ?s' = east s3"
        using True by (simp_all add: res)
      have bh: "both_hands ?s'" using True by (simp add: both_hands_def f')
      have pt: "player_turn ?s' = east s" using d0 by (simp add: player_turn_def f' f3)
      have "moves ?s' (other (east s)) = None"
        using True mo by (simp add: res start_move_moves f3)
      then show ?thesis using h13 bh pt d0 by (simp add: game_inv_def f' f3)
    next
      case nb: False
      let ?s' = "snd (on_hand R player hnd s)"
      have f': "hand ?s' = hand s3" "waits ?s' = waits s3" "discards ?s' = discards s3" "east ?s' = east s3"
         "moves ?s' = moves s3"
        using nb by (simp_all add: res)
      have bh: "\<not> both_hands ?s'" using nb by (simp add: both_hands_def f')
      have "\<And>p. hand ?s' p \<noteq> None \<Longrightarrow> moves ?s' p = None"
        using m0 by (auto simp: f' f3 split: if_splits)
      then show ?thesis using h13 bh d0 by (simp add: game_inv_def f' f3)
    qed
  qed
qed

lemma discarded_state_fields [simp]:
  "east (discarded_state p tile s) = east s"
  "hand (discarded_state p tile s) = hand s"
  "waits (discarded_state p tile s) = waits s"
  "discards (discarded_state p tile s) = (discards s)(p := discards s p @ [tile])"
  "moves (discarded_state p tile s) = (moves s)(p := None)"
  "finished (discarded_state p tile s) = finished s"
  "g_t (discarded_state p tile s) = g_t s"
  "g_uradora_ind (discarded_state p tile s) = g_uradora_ind s"
  "g_dora_ind (discarded_state p tile s) = g_dora_ind s"
  "tiles (discarded_state p tile s) = (tiles s)(p := remove1 tile (tiles s p))"
  "sent (discarded_state p tile s) = sent s @
     [(p, ''end_move'', []),
      (Seat0, ''discarded'', [(''player'', PSeat p), (''tile'', PTile tile)]),
      (Seat1, ''discarded'', [(''player'', PSeat p), (''tile'', PTile tile)])]"
  by (simp_all add: discarded_state_def)

lemma phase2_D: "phase s = 2 \<Longrightarrow> both_hands s \<and> \<not> finished s"
  by (auto simp: phase_def both_hands_def split: if_splits)

lemma both_hands_Some: "both_hands s \<Longrightarrow> \<exists>h. hand s p = Some h"
  by (cases p) (auto simp: both_hands_def truthy_def split: option.splits)

lemma furiten_discarded:
  "waits s (other p) = Some ws \<Longrightarrow>
   furiten (discarded_state p tile s) (other p) =
     Inr (\<exists>w\<in>set ws. w \<in> set (discards s (other p)) \<or> w \<in> set (discards s p))"
  by (auto simp: furiten_def list_ex_iff)

lemma on_discard_valid:
  assumes "phase s = 2" "player_turn s = player" "tile \<in> set (tiles s player)"
    and "hand s (other player) = Some h13" "waits s (other player) = Some ws"
  shows "on_discard R player tile s =
     (let s3 = discarded_state player tile s;
          full_hand = sort (h13 @ [tile]);
          hu = rules_best_hand R full_hand tile (game_options s3 (other player) True);
          msg = [(''player'', PSeat (other player)), (''hand'', PTiles full_hand), (''tile'', PTile tile),
                 (''yaku'', PList (map PStr (s_yaku hu))), (''yakuman'', PBool (s_yakuman hu)),
                 (''dora'', PInt (int (s_dora hu))), (''points'', PInt (rules_BASE_POINTS R (s_limit hu))),
                 (''limit'', PInt (int (s_limit hu))), (''uradora_ind'', PTile (g_uradora_ind s))]
      in if tile \<in> set ws \<and> furiten s3 (other player) = Inr False
            \<and> s_limit (rules_best_hand R full_hand tile (game_options s3 (other player) False)) \<noteq> 0
         then (Inr (), callback Seat1 ''ron'' msg (callback Seat0 ''ron'' msg (s3\<lparr>finished := True\<rparr>)))
         else draw_or_next s3)"
proof -
  show ?thesis
    using assms unfolding on_discard_def
    by (simp add: Let_def discarded_state_def[symmetric] furiten_discarded check_ron_def)
qed

lemma player_turn_cong: "discards a = discards b \<Longrightarrow> east a = east b \<Longrightarrow> player_turn a = player_turn b"
  by (simp add: player_turn_def)

lemma game_inv_hand:
  "game_inv s \<Longrightarrow> hand s p = Some h \<Longrightarrow> length h = 13 \<and> (\<exists>ws. waits s p = Some ws)"
  unfolding game_inv_def by blast

lemma draw_or_next_moves:
  "moves (snd (draw_or_next s)) q =
     (if length (discards s Seat0) = length (discards s Seat1) \<and> length (discards s Seat1) = DISCARDS
      then moves s q else moves (snd (start_move (player_turn s) ''discard'' DISCARD_TIME_LIMIT s)) q)"
  by (simp add: draw_or_next_def)

lemma inv_on_discard: "game_inv s \<Longrightarrow> game_inv (snd (on_discard R player tile s))"
proof -
  assume i: "game_inv s"
  show ?thesis
  proof (cases "phase s \<noteq> 2 \<or> player_turn s \<noteq> player \<or> tile \<notin> set (tiles s player)")
    case True
    then show ?thesis using i by (auto simp: on_discard_def inv_abort)
  next
    case False
    then have v: "phase s = 2" "player_turn s = player" "tile \<in> set (tiles s player)" by auto
    have bh: "both_hands s" using v(1) phase2_D by blast
    obtain h13 where h: "hand s (other player) = Some h13" using both_hands_Some[OF bh] by blast
    then obtain ws where w: "waits s (other player) = Some ws" using game_inv_hand[OF i] by blast
    let ?s3 = "discarded_state player tile s"
    let ?s' = "snd (on_discard R player tile s)"
    have mo: "moves s (other player) = None" using i bh v(2) by (auto simp: game_inv_def)
    have m3: "moves ?s3 q = None" for q using mo by (cases "q = player") (auto simp: seat_neq_iff)
    have pt3: "player_turn ?s3 = other player"
      using i v(2) unfolding game_inv_def player_turn_alt
      by (cases "player = east s") (auto simp: seat_neq_iff split: if_splits)
    have f: "hand ?s' = hand s" "waits ?s' = waits s" "east ?s' = east s"
            "discards ?s' = discards ?s3"
      unfolding on_discard_valid[OF v h w] by (simp_all add: Let_def)
    have mv: "moves ?s' player = None"
      unfolding on_discard_valid[OF v h w] using m3
      by (simp add: Let_def draw_or_next_moves start_move_moves pt3)
    have "player_turn ?s' = player_turn ?s3" by (rule player_turn_cong) (simp_all add: f)
    then have pt: "player_turn ?s' = other player" using pt3 by simp
    have bh': "both_hands ?s'" using bh f by (simp add: both_hands_def)
    have len: "length (discards ?s' (east ?s')) = length (discards ?s' (other (east ?s'))) \<or>
      length (discards ?s' (east ?s')) = length (discards ?s' (other (east ?s'))) + 1"
      using i v(2) unfolding game_inv_def player_turn_alt f
      by (cases "player = east s") (auto simp: seat_neq_iff split: if_splits)
    show ?thesis unfolding game_inv_def using i bh' pt mv len
      by (simp add: f(1,2)) (simp add: game_inv_def)
  qed
qed

lemma reachable_inv: "reachable R s \<Longrightarrow> game_inv s"
  by (induction rule: reachable.induct)
     (simp_all add: inv_start inv_on_hand inv_on_discard inv_beat inv_send_move)

lemma check_ron_discards_eq: "check_ron R p tile s = (r, s') \<Longrightarrow> discards s' = discards s"
  using check_ron_fields(5)[of R p tile s] by simp

lemma on_discard_discards:
  "discards (snd (on_discard R p tile s)) =
     (if phase s = 2 \<and> player_turn s = p \<and> tile \<in> set (tiles s p)
      then (discards s)(p := discards s p @ [tile]) else discards s)"
  unfolding on_discard_def
  by (auto simp: Let_def discarded_state_def[symmetric] dest!: check_ron_discards_eq
       split: option.splits sum.splits prod.splits bool.splits)

lemma start_move_sent_moves:
  "moves s p \<noteq> None \<Longrightarrow> snd (start_move p m l s) = s"
  by (simp add: start_move_def)

lemma check_ron_finished: "finished s \<Longrightarrow> finished (snd (check_ron R p tile s))"
  by (simp add: check_ron_def Let_def split: option.splits)

lemma on_discard_finished_abort:
  "finished s \<Longrightarrow> on_discard R p tile s = (Inr (), abort p ''on_discard: wrong phase'' s)"
  by (simp add: on_discard_def phase_def)

lemma on_hand_phase3_abort:
  "phase s = 3 \<Longrightarrow> on_hand R p hnd s = (Inr (), abort p ''on_hand: wrong phase'' s)"
  by (simp add: on_hand_def)

lemma beat_no_moves:
  "\<forall>i. moves s i = None \<Longrightarrow> sent (beat s) = sent s \<and> (\<forall>i. moves (beat s) i = None)"
  by (simp add: beat_def Let_def expired_def)

lemma finished_beat: "finished s \<Longrightarrow> finished (beat s)"
  by (simp add: beat_def Let_def)

lemma on_hand_abort_or_same:
  "finished (snd (on_hand R p hnd s)) \<and> moves (snd (on_hand R p hnd s)) = (\<lambda>i. None) \<or>
   finished (snd (on_hand R p hnd s)) = finished s"
proof (cases "phase s \<noteq> 1 \<or> length hnd \<noteq> 13 \<or> hand s p \<noteq> None")
  case True
  then show ?thesis by (auto simp: on_hand_def)
next
  case False
  obtain pool ok where tt: "take_tiles (tiles s p) hnd = (pool, ok)"
    by (cases "take_tiles (tiles s p) hnd")
  show ?thesis using False tt by (cases ok) (simp_all add: on_hand_def Let_def)
qed

lemma finished_on_hand: "finished s \<Longrightarrow> finished (snd (on_hand R p hnd s))"
  using on_hand_abort_or_same[of R p hnd s] by auto

lemma on_hand_finishing_moves:
  "\<not> finished s \<Longrightarrow> finished (snd (on_hand R p hnd s)) \<Longrightarrow> moves (snd (on_hand R p hnd s)) i = None"
  using on_hand_abort_or_same[of R p hnd s] by auto

lemma beat_finishing_moves:
  "\<not> finished s \<Longrightarrow> finished (beat s) \<Longrightarrow> moves (beat s) i = None"
  by (auto simp: beat_def Let_def split: if_splits)

lemma on_discard_finishing_moves:
  assumes "game_inv s" "\<not> finished s" "finished (snd (on_discard R p tile s))"
  shows "moves (snd (on_discard R p tile s)) i = None"
proof (cases "phase s \<noteq> 2 \<or> player_turn s \<noteq> p \<or> tile \<notin> set (tiles s p)")
  case True
  then show ?thesis by (auto simp: on_discard_def)
next
  case False
  then have v: "phase s = 2" "player_turn s = p" "tile \<in> set (tiles s p)" by auto
  have bh: "both_hands s" using v(1) phase2_D by blast
  obtain h13 where h: "hand s (other p) = Some h13" using both_hands_Some[OF bh] by blast
  then obtain ws where w: "waits s (other p) = Some ws" using game_inv_hand[OF assms(1)] by blast
  have mo: "moves s (other p) = None" using assms(1) bh v(2) by (auto simp: game_inv_def)
  have m3: "moves (discarded_state p tile s) q = None" for q
    using mo by (cases "q = p") (auto simp: seat_neq_iff)
  show ?thesis
    using assms(2,3) m3 unfolding on_discard_valid[OF v h w]
    by (auto simp: Let_def draw_or_next_def split: if_splits)
qed

lemma draw_or_next_ok:
  assumes "\<forall>q. moves s q = None"
  shows "draw_or_next s =
     (if length (discards s Seat0) = length (discards s Seat1) \<and> length (discards s Seat1) = DISCARDS
      then (Inr (), callback Seat1 ''draw'' [] (callback Seat0 ''draw'' [] (s\<lparr>finished := True\<rparr>)))
      else (Inr (), callback (player_turn s) ''start_move''
              [(''move_type'', PStr ''discard''), (''time_limit'', PInt DISCARD_TIME_LIMIT)]
              (s\<lparr>moves := (moves s)(player_turn s := Some (''discard'', g_t s + DISCARD_TIME_LIMIT + EXTRA_TIME))\<rparr>)))"
  using assms by (simp add: draw_or_next_def start_move_def send_move_def Let_def)

lemma valid_discard_facts:
  assumes "game_inv s" "phase s = 2" "player_turn s = player"
  shows "\<exists>h13 ws. hand s (other player) = Some h13 \<and> length h13 = 13 \<and> waits s (other player) = Some ws"
    and "\<forall>q. moves (discarded_state player tile s) q = None"
    and "player_turn (discarded_state player tile s) = other player"
    and "\<not> finished s"
proof -
  have bh: "both_hands s" and nf: "\<not> finished s" using assms(2) phase2_D by blast+
  obtain h13 where h: "hand s (other player) = Some h13" using both_hands_Some[OF bh] by blast
  then show "\<exists>h13 ws. hand s (other player) = Some h13 \<and> length h13 = 13 \<and> waits s (other player) = Some ws"
    using game_inv_hand[OF assms(1)] by blast
  have mo: "moves s (other player) = None" using assms(1,3) bh by (auto simp: game_inv_def)
  show "\<forall>q. moves (discarded_state player tile s) q = None"
  proof
    fix q show "moves (discarded_state player tile s) q = None"
      using mo by (cases "q = player") (auto simp: seat_neq_iff)
  qed
  show "player_turn (discarded_state player tile s) = other player"
    using assms(1,3) unfolding game_inv_def player_turn_alt
    by (cases "player = east s") (auto simp: seat_neq_iff split: if_splits)
  show "\<not> finished s" by (rule nf)
qed

section \<open>The test scenario\<close>

lemma reachable_g_hands: "reachable test_rules g_hands"
  unfolding g_hands_def g_started_def
  by (intro reachable.intros) simp

lemma reachable_g_s4: "reachable test_rules g_s4"
  unfolding g_s4_def by (intro reachable.intros reachable_g_hands)

lemma reachable_g_east1: "reachable test_rules g_east1"
  unfolding g_east1_def by (intro reachable.intros) simp

lemma reachable_g_short: "reachable test_rules g_short"
  unfolding g_short_def g_started_def by (intro reachable.intros) simp

lemma reachable_play: "reachable R s \<Longrightarrow> reachable R (play R s ms)"
  by (induction R s ms rule: play.induct) (auto intro: reachable.intros)

lemma reachable_g_last: "reachable test_rules g_last"
  unfolding g_last_def
  by (intro reachable.intros reachable_play) simp

lemma g_last_facts:
  "(let g = g_last in
      (phase g, player_turn g, (CHR ''S'', 4) \<in> set (tiles g Seat0), hand g Seat1, waits g Seat1,
       finished (snd (on_discard test_rules Seat0 (CHR ''S'', 4) g))))
    = (2, Seat0, True, Some p1_hand, Some [(CHR ''S'', 1), (CHR ''S'', 4)], True)"
  by code_simp

section \<open>The rooms\<close>

lemma replay_loop_eq:
  "replay_loop pl xs = pl\<lparr>p_messages := p_messages pl @ map wrap_replay (filter not_move xs)\<rparr>"
  by (induction pl xs rule: replay_loop.induct) (auto simp: send_def not_move_def wrap_replay_def)

lemma resend_loop_eq:
  "resend_loop pl xs = pl\<lparr>p0_messages := p0_messages pl @ xs\<rparr>"
  by (induction pl xs rule: resend_loop.induct) (auto simp: send0_def)

lemma sent_send_move:
  "sent (send_move idx g) = sent g @ map (\<lambda>(mt, m). (idx, mt, m)) (pending_move g idx)"
  by (simp add: send_move_def pending_move_def split: option.splits)

lemma call_game_send_move:
  "call_game (send_move idx) r =
     foldl (\<lambda>r1 (mt, m). send_to_player idx mt m r1) (r\<lparr>r_game := send_move idx (r_game r)\<rparr>)
           (pending_move (r_game r) idx)"
  by (simp add: call_game_def Let_def sent_send_move pending_move_def split: option.splits)

lemma call_game_send_move_attached:
  assumes "r_players r idx = Some pl"
  shows "call_game (send_move idx) r =
     r\<lparr>r_game := send_move idx (r_game r),
       r_messages := (r_messages r)(idx := r_messages r idx @ pending_move (r_game r) idx),
       r_players := (r_players r)(idx := Some (pl\<lparr>p_messages := p_messages pl @ pending_move (r_game r) idx\<rparr>))\<rparr>"
  using assms unfolding call_game_send_move
  by (auto simp: pending_move_def send_to_player_def send_def Let_def fun_upd_idem split: option.splits)

text \<open>
  The dictionary \<^verbatim>\<open>{'type': msg_type, **msg}\<close> of a payload with distinct keys: it holds
  the items of the payload and the type, the payload's own \<^verbatim>\<open>'type'\<close> winning if it has
  one; when it has none, the type comes first and the items follow in their order.
\<close>

lemma map_of_dict_set: "map_of (dict_set k v d) = (map_of d)(k \<mapsto> v)"
  by (induction d) (auto simp: fun_upd_twist)

lemma dict_set_fresh: "k \<notin> fst ` set d \<Longrightarrow> dict_set k v d = d @ [(k, v)]"
  by (induction d) auto

lemma foldl_dict_set_map_of:
  "distinct (map fst m) \<Longrightarrow>
     map_of (foldl (\<lambda>d (k, v). dict_set k v d) d m) = map_of d ++ map_of m"
proof (induction m arbitrary: d)
  case Nil
  then show ?case by simp
next
  case (Cons e m)
  obtain k v where e: "e = (k, v)" by (cases e)
  have nk: "k \<notin> dom (map_of m)" using Cons.prems e by (simp add: dom_map_of_conv_image_fst)
  have "map_of (foldl (\<lambda>d (k, v). dict_set k v d) d (e # m)) = (map_of d)(k \<mapsto> v) ++ map_of m"
    using Cons e by (simp add: map_of_dict_set)
  also have "\<dots> = (map_of d ++ map_of m)(k \<mapsto> v)" using nk by (rule map_add_upd_left)
  also have "\<dots> = map_of d ++ map_of (e # m)" by (simp add: e)
  finally show ?case .
qed

lemma foldl_dict_set_fresh:
  "distinct (map fst m) \<Longrightarrow> fst ` set d \<inter> fst ` set m = {} \<Longrightarrow>
     foldl (\<lambda>d (k, v). dict_set k v d) d m = d @ m"
proof (induction m arbitrary: d)
  case Nil
  then show ?case by simp
next
  case (Cons e m)
  obtain k v where e: "e = (k, v)" by (cases e)
  have fr: "k \<notin> fst ` set d" using Cons.prems(2) e by auto
  have "fst ` set (d @ [(k, v)]) \<inter> fst ` set m = {}" using Cons.prems e by auto
  then have "foldl (\<lambda>d (k, v). dict_set k v d) (d @ [(k, v)]) m = (d @ [(k, v)]) @ m"
    using Cons.IH Cons.prems(1) by simp
  then show ?case using fr e by (simp add: dict_set_fresh)
qed

lemma replay_dict_map_of:
  "distinct (map fst msg) \<Longrightarrow>
     map_of (replay_dict msg_type msg) = [''type'' \<mapsto> PStr msg_type] ++ map_of msg"
  by (simp add: replay_dict_def foldl_dict_set_map_of)

lemma replay_dict_plain:
  "distinct (map fst msg) \<Longrightarrow> ''type'' \<notin> fst ` set msg \<Longrightarrow>
     replay_dict msg_type msg = (''type'', PStr msg_type) # msg"
  using foldl_dict_set_fresh[of msg "[(''type'', PStr msg_type)]"] by (simp add: replay_dict_def)

section \<open>The game: claims\<close>

text \<open>
  Claim C3. In a reachable state of phase 2 both wait sets are known, and
  \<^const>\<open>furiten\<close> of a seat is true exactly when a tile of its wait set is among its own
  discards or among the opponent's discards without the opponent's last one.
\<close>

theorem C3_furiten:
  assumes "reachable R s" and "phase s = 2"
  shows "\<exists>ws. waits s seat = Some ws \<and>
           furiten s seat = Inr (\<exists>w\<in>set ws. w \<in> set (discards s seat)
                                       \<or> w \<in> set (butlast (discards s (other seat))))"
proof -
  have i: "game_inv s" using assms(1) by (rule reachable_inv)
  obtain h where "hand s seat = Some h" using phase2_D[OF assms(2)] both_hands_Some by blast
  then obtain ws where "waits s seat = Some ws" using game_inv_hand[OF i] by blast
  then show ?thesis by (auto simp: furiten_def list_ex_iff)
qed

theorem C3_furiten_witness:
  "reachable test_rules g_s4 \<and> phase g_s4 = 2 \<and>
   waits g_s4 Seat1 = Some [(CHR ''S'', 1), (CHR ''S'', 4)] \<and>
   discards g_s4 Seat0 = [(CHR ''S'', 4)] \<and>
   furiten g_s4 Seat1 = Inr False"
proof -
  have p: "phase g_s4 = 2" by code_simp
  have w: "waits g_s4 Seat1 = Some [(CHR ''S'', 1), (CHR ''S'', 4)]" by code_simp
  have d: "discards g_s4 Seat0 = [(CHR ''S'', 4)]" "discards g_s4 Seat1 = []" by code_simp+
  from C3_furiten[OF reachable_g_s4 p, of Seat1] w d
  have "furiten g_s4 Seat1 = Inr False" by simp
  then show ?thesis using reachable_g_s4 p w d by simp
qed

text \<open>
  Claim C7, as amended. In every reachable state the pile of East is as long as the pile
  of the other seat or one tile longer; \<^verbatim>\<open>on_discard\<close> changes the piles only for the seat
  that is East when the piles are equally long and the other seat otherwise, and for that
  seat, in phase 2 and with a tile of its pool, it appends the tile to its pile.
\<close>

theorem C7_discard_piles:
  assumes "reachable R s"
  shows "int (length (discards s (east s))) - int (length (discards s (other (east s)))) \<in> {0, 1}
       \<and> (\<forall>p tile. discards (snd (on_discard R p tile s)) \<noteq> discards s \<longrightarrow>
             p = (if length (discards s Seat0) = length (discards s Seat1) then east s
                  else other (east s)))
       \<and> (\<forall>p tile. phase s = 2 \<and> tile \<in> set (tiles s p) \<and>
             p = (if length (discards s Seat0) = length (discards s Seat1) then east s
                  else other (east s)) \<longrightarrow>
             discards (snd (on_discard R p tile s)) = (discards s)(p := discards s p @ [tile]))"
proof -
  have i: "game_inv s" using assms by (rule reachable_inv)
  then have a: "int (length (discards s (east s))) - int (length (discards s (other (east s)))) \<in> {0, 1}"
    by (auto simp: game_inv_def)
  show ?thesis using a by (auto simp: on_discard_discards player_turn_def)
qed

text \<open>
  Claim C7 as stated fails when seat 1 is East: after East's first discard the pile of
  seat 0 is one tile shorter than the pile of seat 1.
\<close>

theorem C7_east1_counterexample:
  "reachable test_rules g_east1 \<and> east g_east1 = Seat1 \<and>
   int (length (discards g_east1 Seat0)) - int (length (discards g_east1 Seat1)) = - 1 \<and>
   int (length (discards g_east1 Seat0)) - int (length (discards g_east1 Seat1)) \<notin> {0, 1}"
proof -
  have "east g_east1 = Seat1" by code_simp
  moreover have "discards g_east1 Seat0 = []" by code_simp
  moreover have "discards g_east1 Seat1 = [(CHR ''M'', 7)]" by code_simp
  ultimately show ?thesis using reachable_g_east1 by simp
qed

theorem C7_discard_piles_witness:
  "reachable test_rules g_east1 \<and>
   int (length (discards g_east1 (east g_east1))) - int (length (discards g_east1 (other (east g_east1)))) \<in> {0, 1} \<and>
   phase g_east1 = 2 \<and> (CHR ''M'', 7) \<in> set (tiles g_east1 Seat0) \<and>
   discards (snd (on_discard test_rules Seat0 (CHR ''M'', 7) g_east1)) = (discards g_east1)(Seat0 := discards g_east1 Seat0 @ [(CHR ''M'', 7)])"
proof -
  note c = C7_discard_piles[OF reachable_g_east1]
  have e: "east g_east1 = Seat1" by code_simp
  have d: "discards g_east1 Seat0 = []" "discards g_east1 Seat1 = [(CHR ''M'', 7)]" by code_simp+
  have p: "phase g_east1 = 2" by code_simp
  have t: "(CHR ''M'', 7) \<in> set (tiles g_east1 Seat0)" by code_simp
  have "discards (snd (on_discard test_rules Seat0 (CHR ''M'', 7) g_east1)) = (discards g_east1)(Seat0 := discards g_east1 Seat0 @ [(CHR ''M'', 7)])"
    using c p t e d by simp
  then show ?thesis using c p t reachable_g_east1 by blast
qed

text \<open>
  Claim C8, as amended. Once \<^const>\<open>finished\<close> is set, \<^verbatim>\<open>on_hand\<close>, \<^verbatim>\<open>on_discard\<close> and
  \<^verbatim>\<open>beat\<close> leave it set. From then on \<^verbatim>\<open>on_discard\<close> does nothing but abort, and so does
  \<^verbatim>\<open>on_hand\<close> once both hands are chosen; an abort sends one \<^verbatim>\<open>abort\<close> event to each seat
  and leaves no move pending; \<^verbatim>\<open>beat\<close> sends nothing and opens no move when no move is
  pending. A handler call that sets \<^const>\<open>finished\<close> in a reachable state leaves no move
  pending for either seat.
\<close>

theorem C8_finished:
  "(finished s \<longrightarrow>
      finished (snd (on_hand R p hnd s)) \<and> finished (snd (on_discard R p tile s)) \<and> finished (beat s)
      \<and> snd (on_discard R p tile s) = abort p ''on_discard: wrong phase'' s
      \<and> (phase s = 3 \<longrightarrow> snd (on_hand R p hnd s) = abort p ''on_hand: wrong phase'' s)
      \<and> ((\<forall>i. moves s i = None) \<longrightarrow> sent (beat s) = sent s \<and> (\<forall>i. moves (beat s) i = None)))
   \<and> sent (abort p d s) = sent s @
        [(Seat0, ''abort'', [(''culprit'', PSeat p), (''description'', PStr d)]),
         (Seat1, ''abort'', [(''culprit'', PSeat p), (''description'', PStr d)])]
   \<and> (\<forall>i. moves (abort p d s) i = None)
   \<and> (reachable R s \<and> \<not> finished s \<longrightarrow>
        (finished (snd (on_hand R p hnd s)) \<longrightarrow> (\<forall>i. moves (snd (on_hand R p hnd s)) i = None)) \<and>
        (finished (snd (on_discard R p tile s)) \<longrightarrow> (\<forall>i. moves (snd (on_discard R p tile s)) i = None)) \<and>
        (finished (beat s) \<longrightarrow> (\<forall>i. moves (beat s) i = None)))"
proof -
  have a: "finished s \<longrightarrow>
      finished (snd (on_hand R p hnd s)) \<and> finished (snd (on_discard R p tile s)) \<and> finished (beat s)
      \<and> snd (on_discard R p tile s) = abort p ''on_discard: wrong phase'' s
      \<and> (phase s = 3 \<longrightarrow> snd (on_hand R p hnd s) = abort p ''on_hand: wrong phase'' s)
      \<and> ((\<forall>i. moves s i = None) \<longrightarrow> sent (beat s) = sent s \<and> (\<forall>i. moves (beat s) i = None))"
    by (simp add: finished_on_hand on_discard_finished_abort finished_beat on_hand_phase3_abort
          beat_no_moves)
  have b: "reachable R s \<and> \<not> finished s \<longrightarrow>
        (finished (snd (on_hand R p hnd s)) \<longrightarrow> (\<forall>i. moves (snd (on_hand R p hnd s)) i = None)) \<and>
        (finished (snd (on_discard R p tile s)) \<longrightarrow> (\<forall>i. moves (snd (on_discard R p tile s)) i = None)) \<and>
        (finished (beat s) \<longrightarrow> (\<forall>i. moves (beat s) i = None))"
    using on_hand_finishing_moves beat_finishing_moves on_discard_finishing_moves reachable_inv
    by blast
  show ?thesis using a b by simp
qed

text \<open>
  Claim C8 as stated fails: after the abort of \<^verbatim>\<open>test_short_hand\<close> a discard message makes
  the game send two more \<^verbatim>\<open>abort\<close> events.
\<close>

theorem C8_event_after_finished_counterexample:
  "reachable test_rules g_short \<and> finished g_short \<and>
   sent (snd (on_discard test_rules Seat0 (CHR ''M'', 7) g_short)) = sent g_short @
     [(Seat0, ''abort'', [(''culprit'', PInt 0), (''description'', PStr ''on_discard: wrong phase'')]),
      (Seat1, ''abort'', [(''culprit'', PInt 0), (''description'', PStr ''on_discard: wrong phase'')])]"
proof -
  have f: "finished g_short" by code_simp
  then show ?thesis using reachable_g_short
    by (simp add: on_discard_finished_abort PSeat_def)
qed

theorem C8_finished_witness:
  "reachable test_rules g_s4 \<and> \<not> finished g_s4 \<and>
   finished (snd (on_discard test_rules Seat1 (CHR ''P'', 1) g_s4)) \<and>
   moves (snd (on_discard test_rules Seat1 (CHR ''P'', 1) g_s4)) Seat0 = None \<and>
   moves (snd (on_discard test_rules Seat1 (CHR ''P'', 1) g_s4)) Seat1 = None \<and>
   finished g_short \<and>
   finished (snd (on_hand test_rules Seat0 kokushi13 g_short)) \<and>
   snd (on_discard test_rules Seat0 (CHR ''M'', 7) g_short) = abort Seat0 ''on_discard: wrong phase'' g_short"
proof -
  have nf: "\<not> finished g_s4" by code_simp
  have f': "finished (snd (on_discard test_rules Seat1 (CHR ''P'', 1) g_s4))" by code_simp
  have f: "finished g_short" by code_simp
  note c1 = C8_finished[where s = g_s4 and R = test_rules and p = Seat1 and tile = "(CHR ''P'', 1)"]
  note c2 = C8_finished[where s = g_short and R = test_rules and p = Seat0 and tile = "(CHR ''M'', 7)"
      and hnd = kokushi13]
  have m: "\<forall>i. moves (snd (on_discard test_rules Seat1 (CHR ''P'', 1) g_s4)) i = None"
    using c1 reachable_g_s4 nf f' by blast
  have a: "finished (snd (on_hand test_rules Seat0 kokushi13 g_short))"
     "snd (on_discard test_rules Seat0 (CHR ''M'', 7) g_short) = abort Seat0 ''on_discard: wrong phase'' g_short"
    using c2 f by blast+
  show ?thesis using reachable_g_s4 nf f' m f a by blast
qed

text \<open>
  The case the amended claim leaves out: \<^const>\<open>phase\<close> tests the hands before the
  finished flag, so after an abort in phase 1 a game is still in phase 1, \<^verbatim>\<open>on_hand\<close>
  accepts the hands, sends its events and opens a discard move for East.
\<close>

lemma on_hand_after_abort:
  "finished g_short \<and> phase g_short = 1 \<and>
   moves (snd (on_hand test_rules Seat1 p1_hand (snd (on_hand test_rules Seat0 kokushi13 g_short)))) Seat0
     = Some (''discard'', 25)"
  by code_simp

text \<open>
  Claim C1, as amended. In a reachable state of phase 2, let the seat whose turn it is
  discard a tile of its pool. The handler returns normally. A \<^verbatim>\<open>ron\<close> event is sent to
  both seats exactly when the tile is in the opponent's wait set, the opponent is not
  furiten and the best hand of the opponent's 13 tiles with the tile has a limit of at
  least 1; no \<^verbatim>\<open>ron\<close> event is sent otherwise. On a ron the game is finished and both
  seats get the same payload: the winner, the sorted 14 tiles, the tile, and the yaku,
  the yakuman flag, the dora count, the points \<^verbatim>\<open>BASE_POINTS[limit]\<close> and the limit of the
  best hand computed with the uradora, and the uradora indicator. Without a ron the game
  ends in a draw when both piles now hold 17 tiles, and goes on with a discard move for
  the opponent otherwise.
\<close>

theorem C1_ron:
  assumes "reachable R s" and "phase s = 2" and "player_turn s = player"
    and "tile \<in> set (tiles s player)"
  shows "\<exists>h13 ws. hand s (other player) = Some h13 \<and> length h13 = 13 \<and>
           waits s (other player) = Some ws \<and>
     (let opp = other player;
          full_hand = sort (h13 @ [tile]);
          s3 = discarded_state player tile s;
          best = rules_best_hand R full_hand tile (game_options s3 opp False);
          hu = rules_best_hand R full_hand tile (game_options s3 opp True);
          win = (tile \<in> set ws \<and> furiten s3 opp = Inr False \<and> s_limit best \<ge> 1);
          ron = [(''player'', PSeat opp), (''hand'', PTiles full_hand), (''tile'', PTile tile),
                 (''yaku'', PList (map PStr (s_yaku hu))), (''yakuman'', PBool (s_yakuman hu)),
                 (''dora'', PInt (int (s_dora hu))), (''points'', PInt (rules_BASE_POINTS R (s_limit hu))),
                 (''limit'', PInt (int (s_limit hu))), (''uradora_ind'', PTile (g_uradora_ind s))];
          s' = snd (on_discard R player tile s);
          new = drop (length (sent s)) (sent s');
          announced = [(player, ''end_move'', []),
                       (Seat0, ''discarded'', [(''player'', PSeat player), (''tile'', PTile tile)]),
                       (Seat1, ''discarded'', [(''player'', PSeat player), (''tile'', PTile tile)])];
          last_discard = (length (discards s3 Seat0) = DISCARDS \<and> length (discards s3 Seat1) = DISCARDS)
      in fst (on_discard R player tile s) = Inr ()
         \<and> length full_hand = 14
         \<and> ((Seat0, ''ron'', ron) \<in> set new \<and> (Seat1, ''ron'', ron) \<in> set new \<longleftrightarrow> win)
         \<and> ((\<exists>i m. (i, ''ron'', m) \<in> set new) \<longrightarrow> win)
         \<and> (win \<longrightarrow> finished s' \<and> new = announced @ [(Seat0, ''ron'', ron), (Seat1, ''ron'', ron)])
         \<and> (\<not> win \<and> last_discard \<longrightarrow>
               finished s' \<and> new = announced @ [(Seat0, ''draw'', []), (Seat1, ''draw'', [])])
         \<and> (\<not> win \<and> \<not> last_discard \<longrightarrow>
               \<not> finished s' \<and> player_turn s' = opp
               \<and> moves s' opp = Some (''discard'', g_t s + DISCARD_TIME_LIMIT + EXTRA_TIME)
               \<and> new = announced @ [(opp, ''start_move'',
                     [(''move_type'', PStr ''discard''), (''time_limit'', PInt DISCARD_TIME_LIMIT)])]))"
proof -
  have i: "game_inv s" using assms(1) by (rule reachable_inv)
  note vf0 = valid_discard_facts[OF i assms(2,3)]
  have vf: "\<exists>h13 ws. hand s (other player) = Some h13 \<and> length h13 = 13 \<and> waits s (other player) = Some ws"
    "\<forall>q. moves (discarded_state player tile s) q = None"
    "player_turn (discarded_state player tile s) = other player" "\<not> finished s"
    using vf0 by blast+
  from vf(1) obtain h13 ws where h: "hand s (other player) = Some h13" "length h13 = 13"
      "waits s (other player) = Some ws" by blast
  let ?s3 = "discarded_state player tile s"
  have don: "draw_or_next ?s3 =
     (if length (discards ?s3 Seat0) = DISCARDS \<and> length (discards ?s3 Seat1) = DISCARDS
      then (Inr (), callback Seat1 ''draw'' [] (callback Seat0 ''draw'' [] (?s3\<lparr>finished := True\<rparr>)))
      else (Inr (), callback (other player) ''start_move''
              [(''move_type'', PStr ''discard''), (''time_limit'', PInt DISCARD_TIME_LIMIT)]
              (?s3\<lparr>moves := (moves ?s3)(other player := Some (''discard'', g_t s + DISCARD_TIME_LIMIT + EXTRA_TIME))\<rparr>)))"
    unfolding draw_or_next_ok[OF vf(2)] vf(3) by auto
  have pt: "player_turn (callback (other player) ''start_move'' m
              (?s3\<lparr>moves := mv\<rparr>)) = other player" for m mv
  proof -
    have "player_turn (callback (other player) ''start_move'' m (?s3\<lparr>moves := mv\<rparr>)) = player_turn ?s3"
      by (rule player_turn_cong) simp_all
    then show ?thesis using vf(3) by simp
  qed
  show ?thesis
    apply (rule exI[of _ h13], rule exI[of _ ws])
    unfolding Let_def on_discard_valid[OF assms(2,3,4) h(1,3)] don
    using h vf(4) pt
    by (auto simp: Let_def)
qed

theorem C1_ron_witness:
  "reachable test_rules g_s4 \<and> phase g_s4 = 2 \<and> player_turn g_s4 = Seat1 \<and>
   (CHR ''P'', 1) \<in> set (tiles g_s4 Seat1) \<and>
   finished (snd (on_discard test_rules Seat1 (CHR ''P'', 1) g_s4)) \<and>
   drop (length (sent g_s4)) (sent (snd (on_discard test_rules Seat1 (CHR ''P'', 1) g_s4))) =
     [(Seat1, ''end_move'', []),
      (Seat0, ''discarded'', [(''player'', PInt 1), (''tile'', PStr ''P1'')]),
      (Seat1, ''discarded'', [(''player'', PInt 1), (''tile'', PStr ''P1'')]),
      (Seat0, ''ron'',
        [(''player'', PInt 0),
         (''hand'', PList (map PStr [''M1'', ''M9'', ''P1'', ''P1'', ''P9'', ''S1'', ''S9'', ''X1'', ''X2'',
                                    ''X3'', ''X4'', ''X5'', ''X6'', ''X7''])),
         (''tile'', PStr ''P1''), (''yaku'', PList [PStr ''kokushi'']), (''yakuman'', PBool True),
         (''dora'', PInt 0), (''points'', PInt 32000), (''limit'', PInt 5),
         (''uradora_ind'', PStr ''M2'')]),
      (Seat1, ''ron'',
        [(''player'', PInt 0),
         (''hand'', PList (map PStr [''M1'', ''M9'', ''P1'', ''P1'', ''P9'', ''S1'', ''S9'', ''X1'', ''X2'',
                                    ''X3'', ''X4'', ''X5'', ''X6'', ''X7''])),
         (''tile'', PStr ''P1''), (''yaku'', PList [PStr ''kokushi'']), (''yakuman'', PBool True),
         (''dora'', PInt 0), (''points'', PInt 32000), (''limit'', PInt 5),
         (''uradora_ind'', PStr ''M2'')])]"
  (is "_ \<and> _ \<and> _ \<and> _ \<and> _ \<and> _ = ?events")
proof -
  let ?s' = "snd (on_discard test_rules Seat1 (CHR ''P'', 1) g_s4)"
  let ?s3 = "discarded_state Seat1 (CHR ''P'', 1) g_s4"
  let ?full = "sort (kokushi13 @ [(CHR ''P'', 1)])"
  let ?hu = "rules_best_hand test_rules ?full (CHR ''P'', 1) (game_options ?s3 (other Seat1) True)"
  let ?ron = "[(''player'', PSeat (other Seat1)), (''hand'', PTiles ?full), (''tile'', PTile (CHR ''P'', 1)),
                 (''yaku'', PList (map PStr (s_yaku ?hu))), (''yakuman'', PBool (s_yakuman ?hu)),
                 (''dora'', PInt (int (s_dora ?hu))), (''points'', PInt (rules_BASE_POINTS test_rules (s_limit ?hu))),
                 (''limit'', PInt (int (s_limit ?hu))), (''uradora_ind'', PTile (g_uradora_ind g_s4))]"
  let ?new = "[(Seat1, ''end_move'', []),
       (Seat0, ''discarded'', [(''player'', PSeat Seat1), (''tile'', PTile (CHR ''P'', 1))]),
       (Seat1, ''discarded'', [(''player'', PSeat Seat1), (''tile'', PTile (CHR ''P'', 1))])] @
       [(Seat0, ''ron'', ?ron), (Seat1, ''ron'', ?ron)]"
  have p: "phase g_s4 = 2" by code_simp
  have pt: "player_turn g_s4 = Seat1" by code_simp
  have t: "(CHR ''P'', 1) \<in> set (tiles g_s4 Seat1)" by code_simp
  have h: "hand g_s4 (other Seat1) = Some kokushi13" by code_simp
  have w: "waits g_s4 (other Seat1) = Some kokushi13" by code_simp
  have win: "(CHR ''P'', 1) \<in> set kokushi13" "furiten ?s3 (other Seat1) = Inr False"
    "s_limit (rules_best_hand test_rules ?full (CHR ''P'', 1) (game_options ?s3 (other Seat1) False)) \<ge> 1"
    by code_simp+
  from C1_ron[OF reachable_g_s4 p pt t] h w win
  have fin: "finished ?s'" and new: "drop (length (sent g_s4)) (sent ?s') = ?new"
    by (auto simp only: Let_def option.inject)
  have ev: "?new = ?events" by code_simp
  show ?thesis using reachable_g_s4 p pt t fin new[unfolded ev] by (intro conjI)
qed


text \<open>
  Claim C1 as stated fails in its last sentence on the last discard of a game: the
  34th discard completes the wait of seat 1 with a hand below mangan, no ron is declared,
  and the game does not continue but ends in the draw.
\<close>

theorem C1_last_discard_counterexample:
  "reachable test_rules g_last \<and> phase g_last = 2 \<and> player_turn g_last = Seat0 \<and>
   (CHR ''S'', 4) \<in> set (tiles g_last Seat0) \<and>
   hand g_last Seat1 = Some p1_hand \<and>
   waits g_last Seat1 = Some [(CHR ''S'', 1), (CHR ''S'', 4)] \<and>
   s_limit (rules_best_hand test_rules (sort (p1_hand @ [(CHR ''S'', 4)])) (CHR ''S'', 4)
             (game_options (discarded_state Seat0 (CHR ''S'', 4) g_last) Seat1 False)) = 0 \<and>
   finished (snd (on_discard test_rules Seat0 (CHR ''S'', 4) g_last))"
proof -
  have "s_limit (rules_best_hand test_rules (sort (p1_hand @ [(CHR ''S'', 4)])) (CHR ''S'', 4)
             (game_options (discarded_state Seat0 (CHR ''S'', 4) g_last) Seat1 False)) = 0"
    by (simp add: test_rules_def kokushi13_def p1_hand_def)
  then show ?thesis using reachable_g_last g_last_facts unfolding Let_def prod.inject by blast
qed

section \<open>The rooms: claims\<close>

text \<open>
  Claim C9. Attaching a player to a free seat with \<open>n_received \<ge> 0\<close> succeeds; the
  player is sent the journal entries of the seat from index \<open>n_received\<close> on, in journal
  order, without the \<^verbatim>\<open>start_move\<close> and \<^verbatim>\<open>end_move\<close> entries, each as a \<^verbatim>\<open>replay\<close>
  message whose \<^verbatim>\<open>msg\<close> is the dictionary \<^verbatim>\<open>{'type': msg_type, **msg}\<close> of the entry, and
  after them the \<^verbatim>\<open>start_move\<close> of the move the seat has pending, if there is one, which
  the game sends through \<^verbatim>\<open>send_move\<close> and the room journals as well. The other seat is
  not touched. The dictionary of a replay holds the items of the entry's payload and the
  entry's type under \<^verbatim>\<open>'type'\<close> (a \<^verbatim>\<open>'type'\<close> item of the payload itself wins); for a
  payload without a \<^verbatim>\<open>'type'\<close> item it is the type followed by the payload's items.
\<close>

theorem C9_replay:
  assumes "r_players r idx = None" and "0 \<le> n"
  shows "\<exists>r'. add_player idx pl n r = (Inr (), r') \<and>
     (let journal = r_messages r idx;
          replayed = map (\<lambda>(msg_type, msg). (''replay'', [(''msg'', PDict (replay_dict msg_type msg))]))
                       (filter (\<lambda>(msg_type, msg). msg_type \<noteq> ''start_move'' \<and> msg_type \<noteq> ''end_move'')
                               (drop (nat n) journal));
          pending = (case moves (r_game r) idx of
                       None \<Rightarrow> []
                     | Some (move_type, deadline) \<Rightarrow>
                         [(''start_move'', [(''move_type'', PStr move_type),
                            (''time_limit'', PInt (deadline - g_t (r_game r) - EXTRA_TIME))])])
      in r_players r' idx = Some \<lparr>p_messages = p_messages pl @ replayed @ pending, p_idx = Some idx\<rparr>
         \<and> r_messages r' idx = journal @ pending
         \<and> r_players r' (other idx) = r_players r (other idx)
         \<and> r_messages r' (other idx) = r_messages r (other idx)
         \<and> r_game r' = send_move idx (r_game r)
         \<and> (\<forall>(msg_type, msg) \<in> set journal. distinct (map fst msg) \<longrightarrow>
               map_of (replay_dict msg_type msg) = [''type'' \<mapsto> PStr msg_type] ++ map_of msg
               \<and> (''type'' \<notin> fst ` set msg \<longrightarrow>
                      replay_dict msg_type msg = (''type'', PStr msg_type) # msg)))"
proof -
  have w: "(\<lambda>(msg_type, msg). (''replay'', [(''msg'', PDict (replay_dict msg_type msg))])) = wrap_replay"
    by (auto simp: wrap_replay_def)
  have f: "(\<lambda>(msg_type, msg). msg_type \<noteq> ''start_move'' \<and> msg_type \<noteq> ''end_move'') = not_move"
    by (auto simp: not_move_def)
  have pin: "\<forall>(msg_type, msg) \<in> set (r_messages r idx). distinct (map fst msg) \<longrightarrow>
               map_of (replay_dict msg_type msg) = [''type'' \<mapsto> PStr msg_type] ++ map_of msg
               \<and> (''type'' \<notin> fst ` set msg \<longrightarrow>
                      replay_dict msg_type msg = (''type'', PStr msg_type) # msg)"
    using replay_dict_map_of replay_dict_plain by blast
  have main: "\<exists>r'. add_player idx pl n r = (Inr (), r') \<and>
         r_players r' idx = Some \<lparr>p_messages = p_messages pl @
            map wrap_replay (filter not_move (drop (nat n) (r_messages r idx))) @
            pending_move (r_game r) idx, p_idx = Some idx\<rparr>
         \<and> r_messages r' idx = r_messages r idx @ pending_move (r_game r) idx
         \<and> r_players r' (other idx) = r_players r (other idx)
         \<and> r_messages r' (other idx) = r_messages r (other idx)
         \<and> r_game r' = send_move idx (r_game r)"
    using assms
    by (simp add: add_player_def replay_messages_def Let_def slice_from_def replay_loop_eq
        call_game_send_move_attached set_room_def)
  show ?thesis
    unfolding w f pending_move_def[symmetric] Let_def using main pin by blast
qed

theorem C9_replay_witness:
  "r_players room_started Seat0 = None \<and> (0::int) \<le> 0 \<and>
   fst (add_player Seat0 \<lparr>p_messages = [], p_idx = None\<rparr> 0 room_started) = Inr () \<and>
   r_messages room_started Seat0 =
     [(''phase_one'',
        [(''tiles'',
          PList
           [PStr ''M1'', PStr ''M2'', PStr ''M3'', PStr ''M4'', PStr ''M5'', PStr ''M6'',
            PStr ''M7'', PStr ''M8'', PStr ''M9'', PStr ''P1'', PStr ''P2'', PStr ''P3'',
            PStr ''P4'', PStr ''P5'', PStr ''P6'', PStr ''P7'', PStr ''P8'', PStr ''P9'',
            PStr ''S1'', PStr ''S2'', PStr ''S3'', PStr ''S4'', PStr ''S5'', PStr ''S6'',
            PStr ''S7'', PStr ''S8'', PStr ''S9'', PStr ''X1'', PStr ''X2'', PStr ''X3'',
            PStr ''X4'', PStr ''X5'', PStr ''X6'', PStr ''X7'']),
         (''dora_ind'', PStr ''M1''), (''you'', PInt 0), (''east'', PInt 0)]),
      (''start_move'', [(''move_type'', PStr ''hand''), (''time_limit'', PInt 180)])] \<and>
   delivered Seat0 \<lparr>p_messages = [], p_idx = None\<rparr> 0 room_started =
     [(''replay'',
       [(''msg'', PDict
        [(''type'', PStr ''phase_one''),
         (''tiles'',
          PList
           [PStr ''M1'', PStr ''M2'', PStr ''M3'', PStr ''M4'', PStr ''M5'', PStr ''M6'',
            PStr ''M7'', PStr ''M8'', PStr ''M9'', PStr ''P1'', PStr ''P2'', PStr ''P3'',
            PStr ''P4'', PStr ''P5'', PStr ''P6'', PStr ''P7'', PStr ''P8'', PStr ''P9'',
            PStr ''S1'', PStr ''S2'', PStr ''S3'', PStr ''S4'', PStr ''S5'', PStr ''S6'',
            PStr ''S7'', PStr ''S8'', PStr ''S9'', PStr ''X1'', PStr ''X2'', PStr ''X3'',
            PStr ''X4'', PStr ''X5'', PStr ''X6'', PStr ''X7'']),
         (''dora_ind'', PStr ''M1''), (''you'', PInt 0), (''east'', PInt 0)])]),
      (''start_move'', [(''move_type'', PStr ''hand''), (''time_limit'', PInt 180)])]"
proof -
  let ?pl = "\<lparr>p_messages = [], p_idx = None\<rparr>"
  have n: "r_players room_started Seat0 = None" by code_simp
  have j: "r_messages room_started Seat0 =
     [(''phase_one'',
        [(''tiles'',
          PList
           [PStr ''M1'', PStr ''M2'', PStr ''M3'', PStr ''M4'', PStr ''M5'', PStr ''M6'',
            PStr ''M7'', PStr ''M8'', PStr ''M9'', PStr ''P1'', PStr ''P2'', PStr ''P3'',
            PStr ''P4'', PStr ''P5'', PStr ''P6'', PStr ''P7'', PStr ''P8'', PStr ''P9'',
            PStr ''S1'', PStr ''S2'', PStr ''S3'', PStr ''S4'', PStr ''S5'', PStr ''S6'',
            PStr ''S7'', PStr ''S8'', PStr ''S9'', PStr ''X1'', PStr ''X2'', PStr ''X3'',
            PStr ''X4'', PStr ''X5'', PStr ''X6'', PStr ''X7'']),
         (''dora_ind'', PStr ''M1''), (''you'', PInt 0), (''east'', PInt 0)]),
      (''start_move'', [(''move_type'', PStr ''hand''), (''time_limit'', PInt 180)])]"
    by code_simp
  have g: "moves (r_game room_started) Seat0 = Some (''hand'', 190)" "g_t (r_game room_started) = 0"
    by code_simp+
  from C9_replay[OF n, of 0 ?pl] obtain r' where
    a: "add_player Seat0 ?pl 0 room_started = (Inr (), r')" and
    p: "r_players r' Seat0 = Some \<lparr>p_messages = p_messages ?pl @
          map wrap_replay (filter not_move (drop (nat 0) (r_messages room_started Seat0))) @
          pending_move (r_game room_started) Seat0, p_idx = Some Seat0\<rparr>" and
    pin: "\<forall>(msg_type, msg) \<in> set (r_messages room_started Seat0). distinct (map fst msg) \<longrightarrow>
            (''type'' \<notin> fst ` set msg \<longrightarrow>
               replay_dict msg_type msg = (''type'', PStr msg_type) # msg)"
    unfolding Let_def pending_move_def wrap_replay_def not_move_def
    by (auto simp: case_prod_unfold)
  have rd: "replay_dict ''phase_one''
        [(''tiles'',
          PList
           [PStr ''M1'', PStr ''M2'', PStr ''M3'', PStr ''M4'', PStr ''M5'', PStr ''M6'',
            PStr ''M7'', PStr ''M8'', PStr ''M9'', PStr ''P1'', PStr ''P2'', PStr ''P3'',
            PStr ''P4'', PStr ''P5'', PStr ''P6'', PStr ''P7'', PStr ''P8'', PStr ''P9'',
            PStr ''S1'', PStr ''S2'', PStr ''S3'', PStr ''S4'', PStr ''S5'', PStr ''S6'',
            PStr ''S7'', PStr ''S8'', PStr ''S9'', PStr ''X1'', PStr ''X2'', PStr ''X3'',
            PStr ''X4'', PStr ''X5'', PStr ''X6'', PStr ''X7'']),
         (''dora_ind'', PStr ''M1''), (''you'', PInt 0), (''east'', PInt 0)] =
      (''type'', PStr ''phase_one'') #
        [(''tiles'',
          PList
           [PStr ''M1'', PStr ''M2'', PStr ''M3'', PStr ''M4'', PStr ''M5'', PStr ''M6'',
            PStr ''M7'', PStr ''M8'', PStr ''M9'', PStr ''P1'', PStr ''P2'', PStr ''P3'',
            PStr ''P4'', PStr ''P5'', PStr ''P6'', PStr ''P7'', PStr ''P8'', PStr ''P9'',
            PStr ''S1'', PStr ''S2'', PStr ''S3'', PStr ''S4'', PStr ''S5'', PStr ''S6'',
            PStr ''S7'', PStr ''S8'', PStr ''S9'', PStr ''X1'', PStr ''X2'', PStr ''X3'',
            PStr ''X4'', PStr ''X5'', PStr ''X6'', PStr ''X7'']),
         (''dora_ind'', PStr ''M1''), (''you'', PInt 0), (''east'', PInt 0)]"
    using pin unfolding j by simp
  have d: "delivered Seat0 ?pl 0 room_started =
      map wrap_replay (filter not_move (r_messages room_started Seat0)) @
      pending_move (r_game room_started) Seat0"
    by (simp add: delivered_def a p)
  show ?thesis
    using n a unfolding d j
    by (simp add: wrap_replay_def not_move_def pending_move_def g rd EXTRA_TIME_def)
qed

text \<open>
  Claim C10, as amended. For the same journal and the same \<open>n_received\<close>, what
  server-py's \<^verbatim>\<open>add_player\<close> delivers to the attaching seat is what server's
  \<^verbatim>\<open>add_player\<close> delivers, without the \<^verbatim>\<open>start_move\<close> and \<^verbatim>\<open>end_move\<close> messages and with
  each remaining message wrapped as a \<^verbatim>\<open>replay\<close> message, followed by the \<^verbatim>\<open>start_move\<close> of
  the seat's pending move if there is one.
\<close>

theorem C10_replay_refines_resend:
  assumes "r_players r idx = None" and "r0_players r0 idx = None"
    and "r0_messages r0 idx = r_messages r idx" and "p0_n_received pl0 = n"
  shows "delivered idx pl n r =
           map (\<lambda>(msg_type, msg). (''replay'', [(''msg'', PDict (replay_dict msg_type msg))]))
               (filter (\<lambda>(msg_type, msg). msg_type \<noteq> ''start_move'' \<and> msg_type \<noteq> ''end_move'')
                       (delivered0 idx pl0 r0))
           @ (case moves (r_game r) idx of
                None \<Rightarrow> []
              | Some (move_type, deadline) \<Rightarrow>
                  [(''start_move'', [(''move_type'', PStr move_type),
                     (''time_limit'', PInt (deadline - g_t (r_game r) - EXTRA_TIME))])])"
proof -
  have w: "(\<lambda>(msg_type, msg). (''replay'', [(''msg'', PDict (replay_dict msg_type msg))])) = wrap_replay"
    by (auto simp: wrap_replay_def)
  have f: "(\<lambda>(msg_type, msg). msg_type \<noteq> ''start_move'' \<and> msg_type \<noteq> ''end_move'') = not_move"
    by (auto simp: not_move_def)
  have d0: "delivered0 idx pl0 r0 = slice_from n (r_messages r idx)"
    using assms(2,3,4)
    by (simp add: delivered0_def add_player0_def resend_messages_def Let_def resend_loop_eq)
  have d: "delivered idx pl n r = map wrap_replay (filter not_move (slice_from n (r_messages r idx)))
             @ pending_move (r_game r) idx"
    using assms(1)
    by (simp add: delivered_def add_player_def replay_messages_def Let_def replay_loop_eq
        call_game_send_move_attached set_room_def)
  show ?thesis unfolding w f pending_move_def[symmetric] d d0 ..
qed

text \<open>
  Claim C10 as stated fails on the rooms of the two versions of
  \<^verbatim>\<open>test_replay_after_connect\<close>: server resends \<^verbatim>\<open>b\<close> and \<^verbatim>\<open>e\<close> as they are, server-py
  sends them wrapped as \<^verbatim>\<open>replay\<close> messages.
\<close>

theorem C10_test_rooms_counterexample:
  "delivered Seat0 \<lparr>p_messages = [], p_idx = None\<rparr> 1 room_test \<noteq>
     delivered0 Seat0 \<lparr>p0_messages = [], p0_n_received = 1\<rparr> room0_test \<and>
   delivered0 Seat0 \<lparr>p0_messages = [], p0_n_received = 1\<rparr> room0_test = [(''b'', []), (''e'', [])] \<and>
   delivered Seat0 \<lparr>p_messages = [], p_idx = None\<rparr> 1 room_test =
     [(''replay'', [(''msg'', PDict [(''type'', PStr ''b'')])]),
      (''replay'', [(''msg'', PDict [(''type'', PStr ''e'')])])]"
  by code_simp

theorem C10_replay_refines_resend_witness:
  "r_players room_test Seat0 = None \<and> r0_players room0_test Seat0 = None \<and>
   r0_messages room0_test Seat0 = r_messages room_test Seat0 \<and>
   p0_n_received \<lparr>p0_messages = [], p0_n_received = 1\<rparr> = 1 \<and>
   delivered Seat0 \<lparr>p_messages = [], p_idx = None\<rparr> 1 room_test =
     map wrap_replay (filter not_move (delivered0 Seat0 \<lparr>p0_messages = [], p0_n_received = 1\<rparr> room0_test))
     @ pending_move (r_game room_test) Seat0"
proof -
  have h: "r_players room_test Seat0 = None" "r0_players room0_test Seat0 = None"
    "r0_messages room0_test Seat0 = r_messages room_test Seat0"
    "p0_n_received \<lparr>p0_messages = [], p0_n_received = 1\<rparr> = 1"
    by (simp_all add: room_test_def room0_test_def)
  have w: "(\<lambda>(msg_type, msg). (''replay'', [(''msg'', PDict (replay_dict msg_type msg))])) = wrap_replay"
    by (auto simp: wrap_replay_def)
  have f: "(\<lambda>(msg_type, msg). msg_type \<noteq> ''start_move'' \<and> msg_type \<noteq> ''end_move'') = not_move"
    by (auto simp: not_move_def)
  show ?thesis
    using h C10_replay_refines_resend[OF h, of "\<lparr>p_messages = [], p_idx = None\<rparr>"]
    unfolding w f pending_move_def[symmetric] by blast
qed

end
